theory Spec2Isabelle
  imports Complex_Main "HOL-Library.Product_Lexorder"
begin

section \<open>Data model (src/app.py, the SQLAlchemy models)\<close>

text \<open>
  The three tables read and written by the ordering core. Columns that none of the
  modelled operations reads (email, password, mrp, price, image_url, created_at) are
  left out. A nullable column is an \<open>option\<close>. Python's unbounded integers are \<open>int\<close>.
  Floats (coordinates, distances) are idealised as \<open>real\<close>: NaN and the infinities are
  outside the model.
\<close>

record user =
  uid :: int
  role :: string
  shop_lat :: "real option"
  shop_lng :: "real option"
  user_pincode :: "string option"
  service_radius_km :: "int option"

record product =
  pid :: int
  name :: string
  category :: string
  stock :: int
  product_pincode :: string
  total_purchased :: "int option"
  owner_id :: int

record order =
  oid :: int
  consumer_id :: int
  product_id :: int
  quantity :: int
  status :: string
  assigned_annachi_id :: "int option"
  bundle_id :: "string option"

text \<open>The database: each table is the list of its rows, in the order queries return them.\<close>

record db =
  users :: "user list"
  products :: "product list"
  orders :: "order list"

definition FIXED_CATS :: "string set" where
  "FIXED_CATS = {''cereals'', ''fruits'', ''vegetables''}"


section \<open>Python string helpers\<close>

text \<open>
  \<open>str.strip()\<close> on ASCII text: the ASCII characters for which \<open>str.isspace\<close> holds.
  Python also trims the Unicode spaces (U+0085, U+00A0 and others); text that begins or
  ends with one of those is outside the model.
\<close>

definition is_space :: "char \<Rightarrow> bool" where
  "is_space c = (c \<in> set [CHR 0x09, CHR 0x0A, CHR 0x0B, CHR 0x0C, CHR 0x0D,
                            CHR 0x1C, CHR 0x1D, CHR 0x1E, CHR 0x1F, CHR 0x20])"

definition py_strip :: "string \<Rightarrow> string" where
  "py_strip s = rev (dropWhile is_space (rev (dropWhile is_space s)))"

text \<open>\<open>str.lower()\<close> on ASCII text.\<close>

definition lower_char :: "char \<Rightarrow> char" where
  "lower_char c =
     (case map_of (zip ''ABCDEFGHIJKLMNOPQRSTUVWXYZ'' ''abcdefghijklmnopqrstuvwxyz'') c of
        None \<Rightarrow> c
      | Some l \<Rightarrow> l)"

definition py_lower :: "string \<Rightarrow> string" where
  "py_lower s = map lower_char s"

text \<open>\<open>x or ""\<close> for a nullable string.\<close>

definition or_empty :: "string option \<Rightarrow> string" where
  "or_empty s = (case s of None \<Rightarrow> [] | Some t \<Rightarrow> t)"

text \<open>\<open>str(n)\<close> for an integer: decimal digits, a leading minus sign when negative.\<close>

definition digit_char :: "nat \<Rightarrow> char" where
  "digit_char d = ''0123456789'' ! d"

fun str_nat :: "nat \<Rightarrow> string" where
  "str_nat n = (if n < 10 then [digit_char n] else str_nat (n div 10) @ [digit_char (n mod 10)])"

definition str_int :: "int \<Rightarrow> string" where
  "str_int i = (if i < 0 then CHR ''-'' # str_nat (nat (- i)) else str_nat (nat i))"


section \<open>Provider selection (\<open>_distance_km\<close>, \<open>select_best_annachi\<close>)\<close>

text \<open>
  \<open>haversine\<close> is floating-point trigonometry; the selection only compares its results.
  It is a parameter \<open>hav\<close> of the model: \<open>hav lat1 lon1 lat2 lon2 = Some d\<close> when the call
  returns \<open>d\<close>, \<open>None\<close> when it raises (the \<open>except\<close> branch of \<open>_distance_km\<close>).
\<close>

type_synonym haversine = "real \<Rightarrow> real \<Rightarrow> real \<Rightarrow> real \<Rightarrow> real option"

definition distance_km :: "haversine \<Rightarrow> real option \<Rightarrow> real option \<Rightarrow> user \<Rightarrow> real" where
  "distance_km hav consumer_lat consumer_lng a =
     (if consumer_lat = None \<or> consumer_lng = None then 10 ^ 9
      else if shop_lat a = None \<or> shop_lng a = None then 10 ^ 9
      else (case hav (the consumer_lat) (the consumer_lng) (the (shop_lat a)) (the (shop_lng a)) of
              Some d \<Rightarrow> d
            | None \<Rightarrow> 10 ^ 9))"

text \<open>\<open>float(ann.service_radius_km or 0)\<close>, used only where the radius is an \<open>int\<close>.\<close>

definition radius_or_0 :: "user \<Rightarrow> real" where
  "radius_or_0 a = (case service_radius_km a of None \<Rightarrow> 0 | Some r \<Rightarrow> if r = 0 then 0 else real_of_int r)"

text \<open>The sort key: (out-of-radius flag, distance, id).\<close>

definition score :: "haversine \<Rightarrow> real option \<Rightarrow> real option \<Rightarrow> user \<Rightarrow> nat \<times> real \<times> int" where
  "score hav consumer_lat consumer_lng ann =
     (let dist = distance_km hav consumer_lat consumer_lng ann in
      if (consumer_lat \<noteq> None \<and> consumer_lng \<noteq> None) \<and> service_radius_km ann \<noteq> None
         \<and> \<not> (if dist < 10 ^ 8 then dist \<le> radius_or_0 ann else True)
      then (1, 10 ^ 9, uid ann)
      else (0, dist, uid ann))"

text \<open>The fallback scan: every provider within its own radius, as (distance, id, provider).\<close>

definition inrad_of :: "haversine \<Rightarrow> real option \<Rightarrow> real option \<Rightarrow> user list \<Rightarrow> (real \<times> int \<times> user) list" where
  "inrad_of hav consumer_lat consumer_lng anns_all =
     map (\<lambda>a. (distance_km hav consumer_lat consumer_lng a, uid a, a))
         (filter (\<lambda>a. let d = distance_km hav consumer_lat consumer_lng a in
                       d < 10 ^ 8 \<and> service_radius_km a \<noteq> None \<and> d \<le> radius_or_0 a)
                 anns_all)"

text \<open>\<open>round(dd, 3)\<close>: to the nearest thousandth, ties to the even neighbour.\<close>

definition round_half_even :: "real \<Rightarrow> int" where
  "round_half_even x =
     (let f = \<lfloor>x\<rfloor>; r = x - of_int f in
      if r < 1 / 2 then f else if 1 / 2 < r then f + 1 else if even f then f else f + 1)"

definition round3 :: "real \<Rightarrow> real" where
  "round3 x = of_int (round_half_even (x * 1000)) / 1000"

definition select_best_annachi ::
  "haversine \<Rightarrow> user list \<Rightarrow> string option \<Rightarrow> real option \<Rightarrow> real option \<Rightarrow> user option \<times> real option" where
  "select_best_annachi hav all_users consumer_pincode consumer_lat consumer_lng =
     (let anns_all = filter (\<lambda>u. role u = ''annachi'') all_users in
      if anns_all = [] then (None, None)
      else
        let phase1 = (case consumer_pincode of
                        None \<Rightarrow> []
                      | Some cp \<Rightarrow>
                          if cp = [] then []
                          else filter (\<lambda>a. py_strip (or_empty (user_pincode a)) = py_strip cp) anns_all);
            choice_pool = (if phase1 \<noteq> [] then phase1 else anns_all);
            ranked = sort_key (score hav consumer_lat consumer_lng) choice_pool;
            chosen = (case ranked of [] \<Rightarrow> None | c # _ \<Rightarrow> Some c);
            chosen2 =
              (case chosen of
                 None \<Rightarrow> None
               | Some c \<Rightarrow>
                   if consumer_lat \<noteq> None \<and> consumer_lng \<noteq> None then
                     (let ch_dist = distance_km hav consumer_lat consumer_lng c in
                      if service_radius_km c \<noteq> None \<and> ch_dist < 10 ^ 8 \<and> radius_or_0 c < ch_dist then
                        (case sort_key (\<lambda>t. (fst t, fst (snd t)))
                                (inrad_of hav consumer_lat consumer_lng anns_all) of
                           [] \<Rightarrow> Some c
                         | t # _ \<Rightarrow> Some (snd (snd t)))
                      else Some c)
                   else Some c)
        in case chosen2 of
             None \<Rightarrow> (None, None)
           | Some c \<Rightarrow>
               (Some c,
                if consumer_lat \<noteq> None \<and> consumer_lng \<noteq> None then
                  (let dd = distance_km hav consumer_lat consumer_lng c in
                   if dd < 10 ^ 8 then Some (round3 dd) else None)
                else None))"


section \<open>Bundle placement (\<open>orders_create_auto\<close>)\<close>

text \<open>
  The JSON body of \<open>/orders/create_auto\<close>. A key that is absent or \<open>null\<close> is \<open>None\<close>;
  names and categories are JSON strings, quantities JSON integers.
\<close>

record item =
  item_name :: "string option"
  item_category :: "string option"
  item_quantity :: "int option"

record consumer_info =
  c_lat :: "real option"
  c_lng :: "real option"
  c_pincode :: "string option"

record payload =
  items :: "item list"
  consumer :: consumer_info

text \<open>An entry of \<open>normalized_items\<close> and an entry of the \<open>unavailable\<close> list.\<close>

record norm_item =
  n_name :: string
  n_category :: string
  n_qty :: int

record unavailable =
  un_name :: string
  un_category :: string
  un_reason :: string

text \<open>The responses of the three order-creating routes, one constructor per \<open>return\<close>.\<close>

datatype response =
    OnlyConsumers
  | CartEmpty
  | InvalidLineItem item
  | NoAnnachiAvailable
  | SomeItemsUnavailable int "string option" "real option" "unavailable list"
  | FailedToCreate
  | CreatedAuto "int list" string int "real option"
  | ProductNotFound
  | CategoryNotAllowed
  | QuantityTooSmall
  | InsufficientStock
  | CreatedSingle int string
  | CreatedLegacy "int list" "string list"

text \<open>\<open>int(x or 1)\<close> for a JSON integer or \<open>null\<close>: both \<open>None\<close> and \<open>0\<close> are falsy.\<close>

definition int_or_1 :: "int option \<Rightarrow> int" where
  "int_or_1 q = (case q of None \<Rightarrow> 1 | Some n \<Rightarrow> if n = 0 then 1 else n)"

definition normalize_item :: "item \<Rightarrow> norm_item option" where
  "normalize_item it =
     (let nm = py_strip (or_empty (item_name it));
          cat = py_lower (py_strip (or_empty (item_category it)));
          qty = int_or_1 (item_quantity it)
      in if nm = [] \<or> cat \<notin> FIXED_CATS \<or> qty < 1 then None
         else Some \<lparr>n_name = nm, n_category = cat, n_qty = qty\<rparr>)"

text \<open>The validation loop: \<open>Inl it\<close> is the early return on the invalid item \<open>it\<close>.\<close>

fun normalize_items :: "item list \<Rightarrow> norm_item list \<Rightarrow> item + norm_item list" where
  "normalize_items [] normalized_items = Inr normalized_items"
| "normalize_items (it # its) normalized_items =
     (case normalize_item it of
        None \<Rightarrow> Inl it
      | Some n \<Rightarrow> normalize_items its (normalized_items @ [n]))"

text \<open>The product row of one line, looked up for the selected provider only (\<open>.first()\<close>).\<close>

definition product_for :: "product list \<Rightarrow> user \<Rightarrow> norm_item \<Rightarrow> product option" where
  "product_for ps ann it =
     find (\<lambda>p. owner_id p = uid ann \<and> name p = n_name it \<and> category p = n_category it
                \<and> product_pincode p = or_empty (user_pincode ann)) ps"

text \<open>The availability loop, with the two lists it appends to.\<close>

fun check_items ::
  "product list \<Rightarrow> user \<Rightarrow> norm_item list \<Rightarrow> unavailable list \<times> (product \<times> int) list
     \<Rightarrow> unavailable list \<times> (product \<times> int) list" where
  "check_items ps ann [] acc = acc"
| "check_items ps ann (it # its) (unav, found_rows) =
     (case product_for ps ann it of
        None \<Rightarrow>
          check_items ps ann its
            (unav @ [\<lparr>un_name = n_name it, un_category = n_category it,
                      un_reason = ''not_found_for_selected_annachi''\<rparr>], found_rows)
      | Some prd \<Rightarrow>
          if stock prd < n_qty it then
            check_items ps ann its
              (unav @ [\<lparr>un_name = n_name it, un_category = n_category it,
                        un_reason = ''insufficient_stock ('' @ str_int (stock prd) @ '' left)''\<rparr>],
               found_rows)
          else check_items ps ann its (unav, found_rows @ [(prd, n_qty it)]))"

text \<open>The integer primary key given to a new order row: one more than the largest in use.\<close>

definition next_order_id :: "order list \<Rightarrow> int" where
  "next_order_id os = (case map oid os of [] \<Rightarrow> 1 | i # ids \<Rightarrow> fold max ids i + 1)"

text \<open>\<open>prod.stock -= qty; prod.total_purchased = (prod.total_purchased or 0) + qty\<close>.\<close>

definition purchase :: "int \<Rightarrow> product \<Rightarrow> product" where
  "purchase qty p =
     p\<lparr>stock := stock p - qty,
       total_purchased := Some ((case total_purchased p of None \<Rightarrow> 0 | Some t \<Rightarrow> t) + qty)\<rparr>"

text \<open>A write to the product row with primary key \<open>k\<close>.\<close>

definition update_product :: "int \<Rightarrow> (product \<Rightarrow> product) \<Rightarrow> product list \<Rightarrow> product list" where
  "update_product k f ps = map (\<lambda>p. if pid p = k then f p else p) ps"

definition new_order :: "order list \<Rightarrow> int \<Rightarrow> int \<Rightarrow> int \<Rightarrow> int \<Rightarrow> string \<Rightarrow> order" where
  "new_order os cid prod_id qty aid bid =
     \<lparr>oid = next_order_id os, consumer_id = cid, product_id = prod_id, quantity = qty,
      status = ''Pending'', assigned_annachi_id = Some aid, bundle_id = Some bid\<rparr>"

text \<open>The creation loop over \<open>found_rows\<close>; the last argument is \<open>created\<close>, as order ids.\<close>

fun create_lines ::
  "(product \<times> int) list \<Rightarrow> int \<Rightarrow> int \<Rightarrow> string \<Rightarrow> db \<Rightarrow> int list \<Rightarrow> db \<times> int list" where
  "create_lines [] cid aid bid d created = (d, created)"
| "create_lines ((prd, qty) # rows) cid aid bid d created =
     (let order = new_order (orders d) cid (pid prd) qty aid bid;
          d' = d\<lparr>products := update_product (pid prd) (purchase qty) (products d),
                 orders := orders d @ [order]\<rparr>
      in create_lines rows cid aid bid d' (created @ [oid order]))"

text \<open>The bundle id \<open>f"{ms}-{current_user.id}-A{ann.id}"\<close>.\<close>

definition auto_bundle_id :: "int \<Rightarrow> int \<Rightarrow> int \<Rightarrow> string" where
  "auto_bundle_id now_ms cid aid = str_int now_ms @ ''-'' @ str_int cid @ ''-A'' @ str_int aid"

text \<open>
  \<open>orders_create_auto\<close>. \<open>now_ms\<close> is the clock reading \<open>int(utcnow().timestamp()*1000)\<close>;
  \<open>commit_ok\<close> says whether the \<open>try\<close> block ends without raising (otherwise the session is
  rolled back and the answer is 500). The per-line fan-out after the commit writes only
  to the subscriber registry and swallows its exceptions; it is modelled by \<open>broadcast\<close>
  below and leaves the database as it is.
\<close>

definition orders_create_auto ::
  "haversine \<Rightarrow> db \<Rightarrow> user \<Rightarrow> int \<Rightarrow> bool \<Rightarrow> payload \<Rightarrow> db \<times> response" where
  "orders_create_auto hav d current_user now_ms commit_ok pl =
     (if role current_user \<noteq> ''consumer'' then (d, OnlyConsumers)
      else if items pl = [] then (d, CartEmpty)
      else
        case normalize_items (items pl) [] of
          Inl it \<Rightarrow> (d, InvalidLineItem it)
        | Inr normalized_items \<Rightarrow>
            (case select_best_annachi hav (users d) (c_pincode (consumer pl))
                    (c_lat (consumer pl)) (c_lng (consumer pl)) of
               (None, distance) \<Rightarrow> (d, NoAnnachiAvailable)
             | (Some ann, distance) \<Rightarrow>
                 (case check_items (products d) ann normalized_items ([], []) of
                    (unav, found_rows) \<Rightarrow>
                      if unav \<noteq> [] then
                        (d, SomeItemsUnavailable (uid ann) (user_pincode ann) distance unav)
                      else
                        let bid = auto_bundle_id now_ms (uid current_user) (uid ann) in
                        (case create_lines found_rows (uid current_user) (uid ann) bid d [] of
                           (d', created) \<Rightarrow>
                             if commit_ok then (d', CreatedAuto created bid (uid ann) distance)
                             else (d, FailedToCreate)))))"


section \<open>The single-line and legacy cart routes (\<open>api_create_order\<close>, \<open>orders_create\<close>)\<close>

text \<open>
  Both routes call \<open>db.session.commit()\<close> outside any \<open>try\<close>. A commit that raises is not
  modelled for them: the request then fails and nothing is written.
\<close>

text \<open>\<open>Product.query.get(pid)\<close>: the row with that primary key.\<close>

definition product_get :: "product list \<Rightarrow> int \<Rightarrow> product option" where
  "product_get ps k = find (\<lambda>p. pid p = k) ps"

definition api_create_order ::
  "db \<Rightarrow> user \<Rightarrow> int \<Rightarrow> int option \<Rightarrow> int option \<Rightarrow> db \<times> response" where
  "api_create_order d current_user now_ms data_product_id data_quantity =
     (if role current_user \<noteq> ''consumer'' then (d, OnlyConsumers)
      else
        let qty = int_or_1 data_quantity in
        case (case data_product_id of None \<Rightarrow> None | Some k \<Rightarrow> product_get (products d) k) of
          None \<Rightarrow> (d, ProductNotFound)
        | Some prd \<Rightarrow>
            if py_lower (category prd) \<notin> FIXED_CATS then (d, CategoryNotAllowed)
            else if qty < 1 then (d, QuantityTooSmall)
            else if stock prd < qty then (d, InsufficientStock)
            else
              let bid = str_int now_ms @ ''-'' @ str_int (uid current_user) @ ''-single'';
                  order = new_order (orders d) (uid current_user) (pid prd) qty (owner_id prd) bid
              in (d\<lparr>products := update_product (pid prd) (purchase qty) (products d),
                     orders := orders d @ [order]\<rparr>,
                  CreatedSingle (oid order) bid))"

text \<open>
  An element of the legacy cart: \<open>product_id\<close>, and \<open>quantity\<close> with \<open>None\<close> for an absent key
  (\<open>it.get("quantity", 1)\<close>).
\<close>

record legacy_item =
  li_product_id :: int
  li_quantity :: "int option"

text \<open>
  The loop of \<open>orders_create\<close>. Each iteration reads the product as the earlier
  iterations left it. \<open>Inl r\<close> is an early \<open>return\<close>: nothing has been committed then.
\<close>

fun legacy_lines ::
  "legacy_item list \<Rightarrow> int \<Rightarrow> string \<Rightarrow> db \<Rightarrow> int list \<Rightarrow> response + (db \<times> int list)" where
  "legacy_lines [] cid bid d created = Inr (d, created)"
| "legacy_lines (it # its) cid bid d created =
     (let qty = (case li_quantity it of None \<Rightarrow> 1 | Some q \<Rightarrow> q) in
      case product_get (products d) (li_product_id it) of
        None \<Rightarrow> Inl ProductNotFound
      | Some prd \<Rightarrow>
          if py_lower (category prd) \<notin> FIXED_CATS then Inl CategoryNotAllowed
          else if qty < 1 then Inl QuantityTooSmall
          else if stock prd < qty then Inl InsufficientStock
          else
            let order = new_order (orders d) cid (pid prd) qty (owner_id prd) bid;
                d' = d\<lparr>products := update_product (pid prd) (purchase qty) (products d),
                       orders := orders d @ [order]\<rparr>
            in legacy_lines its cid bid d' (created @ [oid order]))"

definition orders_create :: "db \<Rightarrow> user \<Rightarrow> int \<Rightarrow> legacy_item list \<Rightarrow> db \<times> response" where
  "orders_create d current_user now_ms its =
     (if role current_user \<noteq> ''consumer'' then (d, OnlyConsumers)
      else if its = [] then (d, CartEmpty)
      else
        let bid = str_int now_ms @ ''-'' @ str_int (uid current_user) @ ''-legacy'' in
        case legacy_lines its (uid current_user) bid d [] of
          Inl r \<Rightarrow> (d, r)
        | Inr (d', created) \<Rightarrow> (d', CreatedLegacy created (if created = [] then [] else [bid])))"


section \<open>Status updates (\<open>annachi_orders_update\<close>)\<close>

datatype update_response =
    AccessDenied
  | BundleNotFoundOrUnauthorized
  | BundleUpdated string string
  | BundleUnchanged string
  | InvalidOrderId
  | OrderNotFound
  | Unauthorized
  | OrderUpdated
  | OrderUnchanged

text \<open>
  The rows of the bundle query: orders joined with their product, in the bundle, where the
  caller owns the product or is the assigned provider.
\<close>

definition bundle_row :: "db \<Rightarrow> user \<Rightarrow> string \<Rightarrow> order \<Rightarrow> bool" where
  "bundle_row d current_user b r =
     (case product_get (products d) (product_id r) of
        None \<Rightarrow> False
      | Some p \<Rightarrow>
          bundle_id r = Some b
          \<and> (owner_id p = uid current_user \<or> assigned_annachi_id r = Some (uid current_user)))"

text \<open>
  \<open>annachi_orders_update\<close>. \<open>parse_int\<close> stands for \<open>int(oid)\<close>, \<open>None\<close> when it raises;
  \<open>new_status\<close> is the form field \<open>status\<close>.
\<close>

definition annachi_orders_update ::
  "(string \<Rightarrow> int option) \<Rightarrow> db \<Rightarrow> user \<Rightarrow> string \<Rightarrow> string option \<Rightarrow> db \<times> update_response" where
  "annachi_orders_update parse_int d current_user oid_str new_status =
     (if role current_user \<noteq> ''annachi'' then (d, AccessDenied)
      else if take 7 oid_str = ''BUNDLE_'' then
        (let b = drop 7 oid_str;
             rows = filter (bundle_row d current_user b) (orders d)
         in if rows = [] then (d, BundleNotFoundOrUnauthorized)
            else
              case new_status of
                None \<Rightarrow> (d, BundleUnchanged b)
              | Some s \<Rightarrow>
                  if s = [] then (d, BundleUnchanged b)
                  else
                    (d\<lparr>orders := map (\<lambda>r. if bundle_row d current_user b r then r\<lparr>status := s\<rparr> else r)
                                      (orders d)\<rparr>,
                     BundleUpdated b s))
      else
        case parse_int oid_str of
          None \<Rightarrow> (d, InvalidOrderId)
        | Some k \<Rightarrow>
            (case find (\<lambda>r. oid r = k) (orders d) of
               None \<Rightarrow> (d, OrderNotFound)
             | Some ord \<Rightarrow>
                 (case product_get (products d) (product_id ord) of
                    None \<Rightarrow> (d, Unauthorized)
                  | Some p \<Rightarrow>
                      if owner_id p \<noteq> uid current_user
                         \<and> assigned_annachi_id ord \<noteq> Some (uid current_user)
                      then (d, Unauthorized)
                      else
                        (case new_status of
                           None \<Rightarrow> (d, OrderUnchanged)
                         | Some s \<Rightarrow>
                             if s = [] then (d, OrderUnchanged)
                             else
                               (d\<lparr>orders := map (\<lambda>r. if oid r = k then r\<lparr>status := s\<rparr> else r)
                                                 (orders d)\<rparr>,
                                OrderUpdated)))))"


section \<open>The event broadcaster (\<open>broadcast\<close>)\<close>

text \<open>
  The registry \<open>subscribers\<close> is a set of queue objects: here a list of (identity, queue
  state) pairs. \<open>put_nowait q data\<close> is \<open>Some q'\<close> when the enqueue returns and leaves \<open>q'\<close>,
  \<open>None\<close> when it raises. The first loop runs over a snapshot and collects \<open>dead\<close>; the
  second discards the dead queues from the registry.
\<close>

fun put_all ::
  "('q \<Rightarrow> 'e \<Rightarrow> 'q option) \<Rightarrow> (nat \<times> 'q) list \<Rightarrow> 'e \<Rightarrow> (nat \<times> 'q) list \<Rightarrow> nat list
     \<Rightarrow> (nat \<times> 'q) list \<times> nat list" where
  "put_all put_nowait [] data subscribers dead = (subscribers, dead)"
| "put_all put_nowait ((i, q) # snapshot) data subscribers dead =
     (case put_nowait q data of
        Some q' \<Rightarrow>
          put_all put_nowait snapshot data
            (map (\<lambda>(j, s). if j = i then (j, q') else (j, s)) subscribers) dead
      | None \<Rightarrow> put_all put_nowait snapshot data subscribers (dead @ [i]))"

definition discard :: "nat \<Rightarrow> (nat \<times> 'q) list \<Rightarrow> (nat \<times> 'q) list" where
  "discard i subscribers = filter (\<lambda>(j, s). j \<noteq> i) subscribers"

definition broadcast ::
  "('q \<Rightarrow> 'e \<Rightarrow> 'q option) \<Rightarrow> (nat \<times> 'q) list \<Rightarrow> 'e \<Rightarrow> (nat \<times> 'q) list" where
  "broadcast put_nowait subscribers data =
     (case put_all put_nowait subscribers data subscribers [] of
        (subscribers', dead) \<Rightarrow> fold discard dead subscribers')"


section \<open>Predicates used in the statements about provider selection\<close>

text \<open>
  \<open>within_radius\<close> and \<open>exceeds_radius\<close> compare the evaluated distance of a provider that
  has coordinates and an integer radius with that radius. \<open>hav_bounded\<close> says that the
  distance evaluator stays below the sentinel threshold \<open>10^8\<close> (a great-circle distance on
  a sphere of radius 6371 km is at most about 20016 km). \<open>evaluated_distance\<close> is the
  distance between the consumer and a provider when all four coordinates are present and
  the evaluation returns a value below the threshold. The remaining definitions name the
  stages of \<open>select_best_annachi\<close>.
\<close>

definition within_radius :: "haversine \<Rightarrow> real \<Rightarrow> real \<Rightarrow> user \<Rightarrow> bool" where
  "within_radius hav clat clng a =
     (case (shop_lat a, shop_lng a, service_radius_km a) of
        (Some la, Some lo, Some r) \<Rightarrow>
          (case hav clat clng la lo of Some d \<Rightarrow> d \<le> real_of_int r | None \<Rightarrow> False)
      | _ \<Rightarrow> False)"

definition exceeds_radius :: "haversine \<Rightarrow> real \<Rightarrow> real \<Rightarrow> user \<Rightarrow> bool" where
  "exceeds_radius hav clat clng a =
     (case (shop_lat a, shop_lng a, service_radius_km a) of
        (Some la, Some lo, Some r) \<Rightarrow>
          (case hav clat clng la lo of Some d \<Rightarrow> real_of_int r < d | None \<Rightarrow> False)
      | _ \<Rightarrow> False)"

definition hav_bounded :: "haversine \<Rightarrow> real \<Rightarrow> real \<Rightarrow> bool" where
  "hav_bounded hav la lo = (\<forall>sa so d. hav la lo sa so = Some d \<longrightarrow> d < 10 ^ 8)"

definition same_pincode :: "string \<Rightarrow> user \<Rightarrow> bool" where
  "same_pincode cp a = (py_strip (or_empty (user_pincode a)) = py_strip cp)"

definition anns_of :: "user list \<Rightarrow> user list" where
  "anns_of us = filter (\<lambda>u. role u = ''annachi'') us"

definition pool_of :: "user list \<Rightarrow> string option \<Rightarrow> user list" where
  "pool_of us pin =
     (let phase1 = (case pin of None \<Rightarrow> []
                    | Some cp \<Rightarrow> if cp = [] then []
                        else filter (\<lambda>a. py_strip (or_empty (user_pincode a)) = py_strip cp) (anns_of us))
      in if phase1 \<noteq> [] then phase1 else anns_of us)"

definition flagged :: "haversine \<Rightarrow> real option \<Rightarrow> real option \<Rightarrow> user \<Rightarrow> bool" where
  "flagged hav la lo c = (la \<noteq> None \<and> lo \<noteq> None \<and> service_radius_km c \<noteq> None
      \<and> distance_km hav la lo c < 10 ^ 8 \<and> radius_or_0 c < distance_km hav la lo c)"

definition dist_of :: "haversine \<Rightarrow> real option \<Rightarrow> real option \<Rightarrow> user \<Rightarrow> real option" where
  "dist_of hav la lo c = (if la \<noteq> None \<and> lo \<noteq> None \<and> distance_km hav la lo c < 10 ^ 8
       then Some (round3 (distance_km hav la lo c)) else None)"

definition evaluated_distance :: "haversine \<Rightarrow> real option \<Rightarrow> real option \<Rightarrow> user \<Rightarrow> real option" where
  "evaluated_distance hav la lo c =
     (case (la, lo, shop_lat c, shop_lng c) of
        (Some cla, Some clo, Some sa, Some so) \<Rightarrow>
          (case hav cla clo sa so of
             None \<Rightarrow> None
           | Some d \<Rightarrow> if d < 10 ^ 8 then Some d else None)
      | _ \<Rightarrow> None)"


section \<open>Predicates and stage functions used in the statements about bundle placement\<close>

text \<open>
  \<open>line_problem\<close> and \<open>line_found\<close> are what one iteration of the availability loop appends
  to \<open>unavailable\<close> and to \<open>found_rows\<close>; \<open>line_unavailable\<close> says that the line has no
  product row for the provider or too little stock. \<open>lines_of\<close> lists the order rows the
  creation loop appends, \<open>apply_rows\<close> is its effect on one product row, and
  \<open>reserved_qty\<close> is the total quantity requested of the product with a given key.
\<close>

definition line_problem :: "product list \<Rightarrow> user \<Rightarrow> norm_item \<Rightarrow> unavailable option" where
  "line_problem ps ann it =
     (case product_for ps ann it of
        None \<Rightarrow> Some \<lparr>un_name = n_name it, un_category = n_category it,
                       un_reason = ''not_found_for_selected_annachi''\<rparr>
      | Some p \<Rightarrow>
          if stock p < n_qty it
          then Some \<lparr>un_name = n_name it, un_category = n_category it,
                     un_reason = ''insufficient_stock ('' @ str_int (stock p) @ '' left)''\<rparr>
          else None)"

definition line_found :: "product list \<Rightarrow> user \<Rightarrow> norm_item \<Rightarrow> (product \<times> int) option" where
  "line_found ps ann it =
     (case product_for ps ann it of
        None \<Rightarrow> None
      | Some p \<Rightarrow> if stock p < n_qty it then None else Some (p, n_qty it))"

definition line_unavailable :: "product list \<Rightarrow> user \<Rightarrow> norm_item \<Rightarrow> bool" where
  "line_unavailable ps ann it =
     (case product_for ps ann it of None \<Rightarrow> True | Some p \<Rightarrow> stock p < n_qty it)"

fun lines_of :: "(product \<times> int) list \<Rightarrow> int \<Rightarrow> int \<Rightarrow> string \<Rightarrow> order list \<Rightarrow> order list" where
  "lines_of [] cid aid bid os = []"
| "lines_of ((p, q) # rows) cid aid bid os =
     (let order = new_order os cid (pid p) q aid bid in order # lines_of rows cid aid bid (os @ [order]))"

definition apply_rows :: "(product \<times> int) list \<Rightarrow> product \<Rightarrow> product" where
  "apply_rows rows p = fold (\<lambda>(pr, q) p'. if pid p' = pid pr then purchase q p' else p') rows p"

definition rows_qty :: "(product \<times> int) list \<Rightarrow> int \<Rightarrow> int" where
  "rows_qty rows k = sum_list (map snd (filter (\<lambda>(pr, q). pid pr = k) rows))"

definition resolves_to :: "product list \<Rightarrow> user \<Rightarrow> int \<Rightarrow> norm_item \<Rightarrow> bool" where
  "resolves_to ps ann k it = (case product_for ps ann it of None \<Rightarrow> False | Some p \<Rightarrow> pid p = k)"

definition reserved_qty :: "product list \<Rightarrow> user \<Rightarrow> norm_item list \<Rightarrow> int \<Rightarrow> int" where
  "reserved_qty ps ann nits k = sum_list (map n_qty (filter (resolves_to ps ann k) nits))"


text \<open>\<open>found_rows\<close> when every line is available.\<close>

definition rows_for :: "product list \<Rightarrow> user \<Rightarrow> norm_item list \<Rightarrow> (product \<times> int) list" where
  "rows_for ps ann nits = map (\<lambda>it. (the (product_for ps ann it), n_qty it)) nits"



section \<open>Stage functions used in the statement about the broadcaster\<close>

text \<open>
  \<open>deliver\<close> is what becomes of one registered queue: it stays, holding the event, when
  its enqueue returns, and it is dropped when the enqueue raises. \<open>put_step\<close> is one
  iteration of the first loop of \<open>broadcast\<close>, \<open>dead_of\<close> the list \<open>dead\<close> after it.
\<close>

definition deliver :: "('q \<Rightarrow> 'e \<Rightarrow> 'q option) \<Rightarrow> 'e \<Rightarrow> nat \<times> 'q \<Rightarrow> (nat \<times> 'q) option" where
  "deliver put_nowait data e = (case put_nowait (snd e) data of None \<Rightarrow> None | Some q' \<Rightarrow> Some (fst e, q'))"

definition put_step :: "('q \<Rightarrow> 'e \<Rightarrow> 'q option) \<Rightarrow> 'e \<Rightarrow> nat \<times> 'q \<Rightarrow> (nat \<times> 'q) list \<Rightarrow> (nat \<times> 'q) list" where
  "put_step put_nowait data e subscribers =
     (case put_nowait (snd e) data of
        Some q' \<Rightarrow> map (\<lambda>(j, s). if j = fst e then (j, q') else (j, s)) subscribers
      | None \<Rightarrow> subscribers)"

definition dead_of :: "('q \<Rightarrow> 'e \<Rightarrow> 'q option) \<Rightarrow> 'e \<Rightarrow> (nat \<times> 'q) list \<Rightarrow> nat list" where
  "dead_of put_nowait data snapshot = map fst (filter (\<lambda>e. put_nowait (snd e) data = None) snapshot)"



section \<open>Predicates used in the statement about status updates\<close>

text \<open>
  \<open>authorized_line\<close>: the caller owns the line's product or is the line's assigned provider.
  \<open>referential_integrity\<close>: the schema's keys, \<open>product.id\<close> a primary key and
  \<open>order.product_id\<close> a foreign key into it.
\<close>

definition authorized_line :: "db \<Rightarrow> user \<Rightarrow> order \<Rightarrow> bool" where
  "authorized_line d cu r =
     ((\<exists>p \<in> set (products d). pid p = product_id r \<and> owner_id p = uid cu)
      \<or> assigned_annachi_id r = Some (uid cu))"

definition referential_integrity :: "db \<Rightarrow> bool" where
  "referential_integrity d =
     (distinct (map pid (products d))
      \<and> (\<forall>r \<in> set (orders d). \<exists>p \<in> set (products d). pid p = product_id r))"



section \<open>Bundle ids, the bundle invariant and the reachable order tables\<close>

text \<open>\<open>digits_val\<close> reads a string of decimal digits back as a number; it is the inverse of \<open>str_nat\<close>.\<close>

definition digit_val :: "char \<Rightarrow> nat" where
  "digit_val c = length (takeWhile (\<lambda>x. x \<noteq> c) ''0123456789'')"

definition digits_val :: "string \<Rightarrow> nat" where
  "digits_val s = foldl (\<lambda>acc c. 10 * acc + digit_val c) 0 s"



text \<open>
  \<open>bundle_inv\<close>: any two order lines that share a bundle id have the same assigned provider.
  \<open>auto_inv\<close>: a line whose bundle id has the form generated by \<open>orders_create_auto\<close> is
  assigned to the provider that the id names. \<open>reachable\<close>: the order tables that the
  routes of the core produce, starting from a table whose rows predate the bundle column;
  the user and product tables may be anything at each step, since other routes edit them.
\<close>
definition bundle_inv :: "order list \<Rightarrow> bool" where
  "bundle_inv os =
     (\<forall>o1 \<in> set os. \<forall>o2 \<in> set os.
        bundle_id o1 \<noteq> None \<and> bundle_id o1 = bundle_id o2
          \<longrightarrow> assigned_annachi_id o1 = assigned_annachi_id o2)"

definition auto_inv :: "order list \<Rightarrow> bool" where
  "auto_inv os =
     (\<forall>o' \<in> set os. \<forall>ms c k. bundle_id o' = Some (auto_bundle_id ms c k)
        \<longrightarrow> assigned_annachi_id o' = Some k)"

inductive reachable :: "order list \<Rightarrow> bool" where
  initial: "\<forall>o' \<in> set os. bundle_id o' = None \<Longrightarrow> reachable os"
| auto: "reachable (orders d) \<Longrightarrow> orders_create_auto hav d cu now_ms commit_ok pl = (d', r)
          \<Longrightarrow> reachable (orders d')"
| single: "reachable (orders d) \<Longrightarrow> api_create_order d cu now_ms data_pid data_qty = (d', r)
          \<Longrightarrow> reachable (orders d')"
| legacy: "reachable (orders d) \<Longrightarrow> orders_create d cu now_ms its = (d', r)
          \<Longrightarrow> reachable (orders d')"
| update: "reachable (orders d) \<Longrightarrow> annachi_orders_update parse_int d cu oid_str new_status = (d', u)
          \<Longrightarrow> reachable (orders d')"



section \<open>A small shop directory, used to instantiate the theorems\<close>

definition demo_hav :: haversine where
  "demo_hav a b c d = Some (min 20015 (\<bar>a - c\<bar> + \<bar>b - d\<bar>))"

definition ann1 :: user where
  "ann1 = \<lparr>uid = 1, role = ''annachi'', shop_lat = Some 10, shop_lng = Some 0,
           user_pincode = Some ''600001'', service_radius_km = Some 5\<rparr>"

definition ann2 :: user where
  "ann2 = \<lparr>uid = 2, role = ''annachi'', shop_lat = Some 3, shop_lng = Some 0,
           user_pincode = Some ''600002'', service_radius_km = Some 5\<rparr>"

definition consumer7 :: user where
  "consumer7 = \<lparr>uid = 7, role = ''consumer'', shop_lat = None, shop_lng = None,
                user_pincode = None, service_radius_km = Some 5\<rparr>"

definition demo_users :: "user list" where
  "demo_users = [ann1, ann2, consumer7]"

definition rice2 :: product where
  "rice2 = \<lparr>pid = 1, name = ''Rice'', category = ''cereals'', stock = 5,
            product_pincode = ''600002'', total_purchased = None, owner_id = 2\<rparr>"

definition tomato2 :: product where
  "tomato2 = \<lparr>pid = 2, name = ''Tomato'', category = ''vegetables'', stock = 1,
              product_pincode = ''600002'', total_purchased = Some 4, owner_id = 2\<rparr>"

definition rice1 :: product where
  "rice1 = \<lparr>pid = 3, name = ''Rice'', category = ''cereals'', stock = 9,
            product_pincode = ''600001'', total_purchased = Some 0, owner_id = 1\<rparr>"

definition demo_db :: db where
  "demo_db = \<lparr>users = demo_users, products = [rice2, tomato2, rice1], orders = []\<rparr>"

definition at_origin :: consumer_info where
  "at_origin = \<lparr>c_lat = Some 0, c_lng = Some 0, c_pincode = None\<rparr>"

definition line :: "string \<Rightarrow> string \<Rightarrow> int \<Rightarrow> item" where
  "line n c q = \<lparr>item_name = Some n, item_category = Some c, item_quantity = Some q\<rparr>"

definition cart_short :: payload where
  "cart_short = \<lparr>items = [line ''Rice'' ''cereals'' 1, line '' Tomato'' ''Vegetables'' 2], consumer = at_origin\<rparr>"

definition n_rice1 :: norm_item where
  "n_rice1 = \<lparr>n_name = ''Rice'', n_category = ''cereals'', n_qty = 1\<rparr>"

definition n_tomato2 :: norm_item where
  "n_tomato2 = \<lparr>n_name = ''Tomato'', n_category = ''vegetables'', n_qty = 2\<rparr>"

definition bad_category :: item where
  "bad_category = line ''Rice'' ''spices'' 1"

definition bad_name :: item where
  "bad_name = line ''  '' ''cereals'' 1"

definition cart_ok :: payload where
  "cart_ok = \<lparr>items = [line ''Rice'' ''cereals'' 1, line ''Tomato'' ''vegetables'' 1], consumer = at_origin\<rparr>"

definition n_tomato1 :: norm_item where
  "n_tomato1 = \<lparr>n_name = ''Tomato'', n_category = ''vegetables'', n_qty = 1\<rparr>"

text \<open>A registry of three queues with room for two events each.\<close>
definition bounded_put :: "string list \<Rightarrow> string \<Rightarrow> string list option" where
  "bounded_put q data = (if length q < 2 then Some (q @ [data]) else None)"

definition demo_subscribers :: "(nat \<times> string list) list" where
  "demo_subscribers = [(1, []), (2, [''a'', ''b'']), (3, [''a''])]"

text \<open>An order table in which one bundle holds a line of another provider.\<close>
definition line_a :: order where
  "line_a = \<lparr>oid = 1, consumer_id = 7, product_id = 1, quantity = 1, status = ''Pending'',
             assigned_annachi_id = Some 2, bundle_id = Some ''1000-7-A2''\<rparr>"

definition line_b :: order where
  "line_b = \<lparr>oid = 2, consumer_id = 7, product_id = 3, quantity = 2, status = ''Pending'',
             assigned_annachi_id = Some 1, bundle_id = Some ''1000-7-A2''\<rparr>"

definition line_c :: order where
  "line_c = \<lparr>oid = 3, consumer_id = 7, product_id = 2, quantity = 1, status = ''Pending'',
             assigned_annachi_id = Some 2, bundle_id = Some ''2000-7-A2''\<rparr>"

definition shared_db :: db where
  "shared_db = \<lparr>users = demo_users, products = [rice2, tomato2, rice1], orders = [line_a, line_b, line_c]\<rparr>"

definition no_int :: "string \<Rightarrow> int option" where
  "no_int s = None"

text \<open>A legacy cart over products of two providers, and the two lines of a placed bundle.\<close>
definition mixed_cart :: "legacy_item list" where
  "mixed_cart = [\<lparr>li_product_id = 1, li_quantity = Some 1\<rparr>, \<lparr>li_product_id = 3, li_quantity = None\<rparr>]"

definition placed_first :: order where
  "placed_first = \<lparr>oid = 1, consumer_id = 7, product_id = 1, quantity = 1, status = ''Pending'',
                   assigned_annachi_id = Some 2, bundle_id = Some ''1000-7-A2''\<rparr>"

definition placed_second :: order where
  "placed_second = \<lparr>oid = 2, consumer_id = 7, product_id = 2, quantity = 1, status = ''Pending'',
                    assigned_annachi_id = Some 2, bundle_id = Some ''1000-7-A2''\<rparr>"

text \<open>
  A shop stored with coordinates near the antipode of a consumer at (0.074, 0), and a
  distance evaluator that raises for that pair, as the floating-point \<open>haversine\<close> does
  there (its \<open>a\<close> rounds above 1 and \<open>math.asin\<close> raises a domain error).
\<close>

definition far_shop :: user where
  "far_shop = \<lparr>uid = 9, role = ''annachi'', shop_lat = Some 179.926, shop_lng = Some 180,
               user_pincode = Some ''600009'', service_radius_km = Some 5\<rparr>"

definition raising_hav :: haversine where
  "raising_hav a b c d =
     (if a = 0.074 \<and> b = 0 \<and> c = 179.926 \<and> d = 180 then None else demo_hav a b c d)"

text \<open>A cart placed by postal code alone, whose first line asks for quantity 0.\<close>

definition by_pincode :: consumer_info where
  "by_pincode = \<lparr>c_lat = None, c_lng = None, c_pincode = Some ''600002''\<rparr>"

definition cart_zero :: payload where
  "cart_zero = \<lparr>items = [line ''Rice'' ''cereals'' 0, line ''Tomato'' ''vegetables'' 1],
                consumer = by_pincode\<rparr>"


section \<open>Provider selection: proofs\<close>

lemma pool_of_subset: "set (pool_of us pin) \<subseteq> set (anns_of us)"
  by (auto simp: pool_of_def Let_def split: option.splits if_splits)

lemma pool_of_nonempty: "anns_of us \<noteq> [] \<Longrightarrow> pool_of us pin \<noteq> []"
  by (auto simp: pool_of_def Let_def split: option.splits if_splits)

lemma sort_key_nonempty: "xs \<noteq> [] \<Longrightarrow> \<exists>c cs. sort_key f xs = c # cs \<and> c \<in> set xs"
  by (metis list.exhaust list.set_intros(1) set_sort set_empty)

lemma select_empty:
  "anns_of us = [] \<Longrightarrow> select_best_annachi hav us pin la lo = (None, None)"
  by (simp add: select_best_annachi_def anns_of_def)

lemma select_unflagged:
  assumes "anns_of us \<noteq> []" "sort_key (score hav la lo) (pool_of us pin) = c # cs" "\<not> flagged hav la lo c"
  shows "select_best_annachi hav us pin la lo = (Some c, dist_of hav la lo c)"
  using assms
  unfolding select_best_annachi_def pool_of_def anns_of_def[symmetric] flagged_def dist_of_def Let_def
  by (auto simp: anns_of_def)

lemma select_flagged:
  assumes "anns_of us \<noteq> []" "sort_key (score hav la lo) (pool_of us pin) = c # cs" "flagged hav la lo c"
  shows "select_best_annachi hav us pin la lo =
          (case sort_key (\<lambda>t. (fst t, fst (snd t))) (inrad_of hav la lo (anns_of us)) of
             [] \<Rightarrow> (Some c, dist_of hav la lo c)
           | t # _ \<Rightarrow> (Some (snd (snd t)), dist_of hav la lo (snd (snd t))))"
  using assms
  unfolding select_best_annachi_def pool_of_def anns_of_def[symmetric] flagged_def dist_of_def Let_def
  by (auto simp: anns_of_def split: list.splits)

lemma distance_km_coords:
  "shop_lat a = Some sa \<Longrightarrow> shop_lng a = Some so \<Longrightarrow> hav la lo sa so = Some d \<Longrightarrow>
   distance_km hav (Some la) (Some lo) a = d"
  by (simp add: distance_km_def)

lemma distance_km_small:
  assumes "distance_km hav la lo a < 10 ^ 8"
  shows "\<exists>cla clo sa so d. la = Some cla \<and> lo = Some clo \<and> shop_lat a = Some sa \<and> shop_lng a = Some so
          \<and> hav cla clo sa so = Some d \<and> distance_km hav la lo a = d"
  using assms by (auto simp: distance_km_def split: if_splits option.splits)

lemma radius_or_0_Some: "service_radius_km a = Some r \<Longrightarrow> radius_or_0 a = real_of_int r"
  by (simp add: radius_or_0_def)

lemma exceeds_flagged:
  assumes "hav_bounded hav la lo" "exceeds_radius hav la lo c"
  shows "flagged hav (Some la) (Some lo) c"
proof -
  from assms(2) obtain sa so r d where h: "shop_lat c = Some sa" "shop_lng c = Some so"
      "service_radius_km c = Some r" "hav la lo sa so = Some d" "real_of_int r < d"
    by (auto simp: exceeds_radius_def split: option.splits)
  have "distance_km hav (Some la) (Some lo) c = d" using h by (simp add: distance_km_coords)
  moreover have "d < 10 ^ 8" using assms(1) h(4) by (auto simp: hav_bounded_def)
  ultimately show ?thesis using h by (simp add: flagged_def radius_or_0_Some)
qed

lemma within_inrad:
  assumes "hav_bounded hav la lo" "within_radius hav la lo b" "b \<in> set anns"
  shows "(distance_km hav (Some la) (Some lo) b, uid b, b) \<in> set (inrad_of hav (Some la) (Some lo) anns)"
proof -
  from assms(2) obtain sa so r d where h: "shop_lat b = Some sa" "shop_lng b = Some so"
      "service_radius_km b = Some r" "hav la lo sa so = Some d" "d \<le> real_of_int r"
    by (auto simp: within_radius_def split: option.splits)
  have "distance_km hav (Some la) (Some lo) b = d" using h by (simp add: distance_km_coords)
  moreover have "d < 10 ^ 8" using assms(1) h(4) by (auto simp: hav_bounded_def)
  ultimately show ?thesis using h assms(3) by (auto simp: inrad_of_def radius_or_0_Some)
qed

lemma inrad_not_exceeds:
  assumes "t \<in> set (inrad_of hav (Some la) (Some lo) anns)"
  shows "\<not> exceeds_radius hav la lo (snd (snd t)) \<and> snd (snd t) \<in> set anns"
proof -
  from assms obtain a where a: "t = (distance_km hav (Some la) (Some lo) a, uid a, a)" "a \<in> set anns"
     "distance_km hav (Some la) (Some lo) a < 10 ^ 8" "service_radius_km a \<noteq> None"
     "distance_km hav (Some la) (Some lo) a \<le> radius_or_0 a"
    by (auto simp: inrad_of_def Let_def)
  from distance_km_small[OF a(3)] obtain sa so d where d: "shop_lat a = Some sa" "shop_lng a = Some so"
     "hav la lo sa so = Some d" "distance_km hav (Some la) (Some lo) a = d" by auto
  from a(4) obtain r where r: "service_radius_km a = Some r" by auto
  have "d \<le> real_of_int r" using a(5) d(4) r by (simp add: radius_or_0_Some)
  then have "\<not> exceeds_radius hav la lo a" using d r by (simp add: exceeds_radius_def)
  then show ?thesis using a by simp
qed

text \<open>
  Claim C3. When the consumer supplies coordinates and some provider of the pool has
  coordinates and lies within its own service radius, \<open>select_best_annachi\<close> returns a
  provider, and never one whose distance from the consumer exceeds its own radius.
\<close>

theorem select_in_radius_guarantee:
  assumes bounded: "hav_bounded hav la lo"
      and b: "b \<in> set us" "role b = ''annachi''" "within_radius hav la lo b"
  shows "\<exists>c dist. select_best_annachi hav us pin (Some la) (Some lo) = (Some c, dist)
           \<and> c \<in> set us \<and> role c = ''annachi'' \<and> \<not> exceeds_radius hav la lo c"
proof -
  have bin: "b \<in> set (anns_of us)" using b by (simp add: anns_of_def)
  then have ne: "anns_of us \<noteq> []" by auto
  from sort_key_nonempty[OF pool_of_nonempty[OF ne]]
  obtain c cs where c: "sort_key (score hav (Some la) (Some lo)) (pool_of us pin) = c # cs"
      "c \<in> set (pool_of us pin)" by blast
  have cin: "c \<in> set (anns_of us)" using c(2) pool_of_subset by blast
  show ?thesis
  proof (cases "flagged hav (Some la) (Some lo) c")
    case False
    then have "\<not> exceeds_radius hav la lo c" using exceeds_flagged[OF bounded] by blast
    moreover have "select_best_annachi hav us pin (Some la) (Some lo) = (Some c, dist_of hav (Some la) (Some lo) c)"
      by (rule select_unflagged[OF ne c(1) False])
    ultimately show ?thesis using cin by (simp add: anns_of_def)
  next
    case True
    let ?inrad = "inrad_of hav (Some la) (Some lo) (anns_of us)"
    have "?inrad \<noteq> []" using within_inrad[OF bounded b(3) bin] by auto
    from sort_key_nonempty[OF this]
    obtain t ts where t: "sort_key (\<lambda>t. (fst t, fst (snd t))) ?inrad = t # ts" "t \<in> set ?inrad" by blast
    have "select_best_annachi hav us pin (Some la) (Some lo)
            = (Some (snd (snd t)), dist_of hav (Some la) (Some lo) (snd (snd t)))"
      using select_flagged[OF ne c(1) True] t(1) by simp
    moreover note inrad_not_exceeds[OF t(2)]
    ultimately show ?thesis by (simp add: anns_of_def)
  qed
qed

lemma score_flag0_unflagged: "fst (score hav la lo c) = 0 \<Longrightarrow> \<not> flagged hav la lo c"
  by (auto simp: score_def flagged_def Let_def split: if_splits)

lemma within_score_flag0: "within_radius hav cla clo b \<Longrightarrow> fst (score hav (Some cla) (Some clo) b) = 0"
  by (auto simp: score_def within_radius_def Let_def distance_km_def radius_or_0_def split: option.splits)

lemma no_gps_score_flag0: "la = None \<or> lo = None \<Longrightarrow> fst (score hav la lo b) = 0"
  by (auto simp: score_def Let_def)

lemma hd_sort_key_min:
  assumes "x \<in> set xs"
  shows "\<exists>c cs. sort_key f xs = c # cs \<and> c \<in> set xs \<and> f c \<le> f x"
proof -
  have "xs \<noteq> []" using assms by auto
  from sort_key_nonempty[OF this] obtain c cs where e: "sort_key f xs = c # cs" "c \<in> set xs" by blast
  have "sorted (map f (c # cs))" using sorted_sort_key[of f xs] e by simp
  moreover have "x \<in> set (c # cs)" using assms e by (metis set_sort)
  ultimately show ?thesis using e by auto
qed

lemma pool_of_same_pincode:
  assumes "cp \<noteq> []" "b \<in> set (anns_of us)" "same_pincode cp b"
  shows "pool_of us (Some cp) = filter (same_pincode cp) (anns_of us)"
proof -
  have eq: "filter (\<lambda>a. py_strip (or_empty (user_pincode a)) = py_strip cp) (anns_of us)
              = filter (same_pincode cp) (anns_of us)"
    by (rule filter_cong) (simp_all add: same_pincode_def)
  have "b \<in> set (filter (same_pincode cp) (anns_of us))" using assms by simp
  then have "filter (same_pincode cp) (anns_of us) \<noteq> []" by (metis empty_iff list.set(1))
  then show ?thesis using assms(1) by (simp add: pool_of_def eq)
qed

text \<open>
  Claim C4. When the request carries a postal code, some provider's stored postal code
  equals it after trimming, and that provider is within its own radius or the consumer's
  coordinates are absent, \<open>select_best_annachi\<close> returns a provider with that postal code,
  whatever the distances of the providers with other postal codes are.
\<close>

theorem select_prefers_same_pincode:
  assumes cp: "cp \<noteq> []"
      and b: "b \<in> set us" "role b = ''annachi''" "same_pincode cp b"
      and r: "la = None \<or> lo = None \<or> within_radius hav (the la) (the lo) b"
  shows "\<exists>c dist. select_best_annachi hav us (Some cp) la lo = (Some c, dist)
           \<and> c \<in> set us \<and> role c = ''annachi'' \<and> same_pincode cp c"
proof -
  have bin: "b \<in> set (anns_of us)" using b by (simp add: anns_of_def)
  then have ne: "anns_of us \<noteq> []" by auto
  have pool: "pool_of us (Some cp) = filter (same_pincode cp) (anns_of us)"
    by (rule pool_of_same_pincode[OF cp bin b(3)])
  have bp: "b \<in> set (pool_of us (Some cp))" using pool bin b(3) by simp
  from hd_sort_key_min[OF bp, of "score hav la lo"]
  obtain c cs where c: "sort_key (score hav la lo) (pool_of us (Some cp)) = c # cs"
      "c \<in> set (pool_of us (Some cp))" "score hav la lo c \<le> score hav la lo b" by blast
  have "fst (score hav la lo b) = 0"
  proof (cases "la = None \<or> lo = None")
    case True then show ?thesis by (rule no_gps_score_flag0)
  next
    case False
    then obtain cla clo where "la = Some cla" "lo = Some clo" by auto
    then show ?thesis using r within_score_flag0 by auto
  qed
  then have "fst (score hav la lo c) = 0" using c(3) by (auto simp: less_eq_prod_def)
  then have "\<not> flagged hav la lo c" by (rule score_flag0_unflagged)
  from select_unflagged[OF ne c(1) this]
  have "select_best_annachi hav us (Some cp) la lo = (Some c, dist_of hav la lo c)" .
  moreover have "c \<in> set us \<and> role c = ''annachi'' \<and> same_pincode cp c"
    using c(2) pool by (auto simp: anns_of_def)
  ultimately show ?thesis by blast
qed

lemma round_half_even_near:
  "\<bar>real_of_int (round_half_even y) - y\<bar> \<le> 1 / 2
   \<and> (\<bar>real_of_int (round_half_even y) - y\<bar> = 1 / 2 \<longrightarrow> even (round_half_even y))"
proof -
  let ?f = "\<lfloor>y\<rfloor>"
  let ?r = "y - real_of_int ?f"
  have fl: "real_of_int ?f \<le> y" by simp
  have fu: "y < real_of_int ?f + 1" by linarith
  consider (down) "?r < 1 / 2" | (up) "1 / 2 < ?r" | (tie) "?r = 1 / 2" by linarith
  then show ?thesis
  proof cases
    case down
    then have e: "round_half_even y = ?f" by (simp add: round_half_even_def Let_def)
    have "\<bar>real_of_int ?f - y\<bar> < 1 / 2" using fl down by linarith
    then show ?thesis unfolding e by simp
  next
    case up
    then have e: "round_half_even y = ?f + 1" by (simp add: round_half_even_def Let_def)
    have "\<bar>real_of_int (?f + 1) - y\<bar> < 1 / 2" using fu up by (simp; linarith)
    then show ?thesis unfolding e by simp
  next
    case tie
    show ?thesis
    proof (cases "even ?f")
      case True
      then have e: "round_half_even y = ?f" using tie by (simp add: round_half_even_def Let_def)
      have "\<bar>real_of_int ?f - y\<bar> = 1 / 2" using tie by linarith
      then show ?thesis unfolding e using True by simp
    next
      case False
      then have e: "round_half_even y = ?f + 1" using tie by (simp add: round_half_even_def Let_def)
      have "\<bar>real_of_int (?f + 1) - y\<bar> = 1 / 2" using tie by (simp; linarith)
      then show ?thesis unfolding e using False by simp
    qed
  qed
qed

lemma round3_spec:
  "\<exists>n::int. round3 x = real_of_int n / 1000 \<and> \<bar>round3 x - x\<bar> \<le> 1 / 2000
      \<and> (\<bar>round3 x - x\<bar> = 1 / 2000 \<longrightarrow> even n)"
proof -
  let ?n = "round_half_even (x * 1000)"
  have r: "round3 x = real_of_int ?n / 1000" by (simp add: round3_def)
  have n: "\<bar>real_of_int ?n - x * 1000\<bar> \<le> 1 / 2"
      "\<bar>real_of_int ?n - x * 1000\<bar> = 1 / 2 \<longrightarrow> even ?n"
    using round_half_even_near[of "x * 1000"] by blast+
  have a: "\<bar>round3 x - x\<bar> \<le> 1 / 2000" unfolding r using n(1) by linarith
  have b: "\<bar>round3 x - x\<bar> = 1 / 2000 \<longrightarrow> even ?n"
  proof
    assume "\<bar>round3 x - x\<bar> = 1 / 2000"
    then have "\<bar>real_of_int ?n - x * 1000\<bar> = 1 / 2" unfolding r by linarith
    then show "even ?n" using n(2) by blast
  qed
  show ?thesis using r a b by blast
qed

lemma dist_of_evaluated:
  "dist_of hav la lo c = map_option round3 (evaluated_distance hav la lo c)"
  by (auto simp: dist_of_def evaluated_distance_def distance_km_def split: option.splits)

lemma evaluated_distance_iff:
  "evaluated_distance hav la lo c \<noteq> None \<longleftrightarrow>
     (\<exists>cla clo sa so d. la = Some cla \<and> lo = Some clo \<and> shop_lat c = Some sa \<and> shop_lng c = Some so
         \<and> hav cla clo sa so = Some d \<and> d < 10 ^ 8)"
  by (auto simp: evaluated_distance_def split: option.splits if_splits)


lemma select_some:
  assumes "anns_of us \<noteq> []"
  shows "\<exists>c. c \<in> set (anns_of us) \<and> select_best_annachi hav us pin la lo = (Some c, dist_of hav la lo c)"
proof -
  from sort_key_nonempty[OF pool_of_nonempty[OF assms]]
  obtain c cs where c: "sort_key (score hav la lo) (pool_of us pin) = c # cs"
      "c \<in> set (pool_of us pin)" by blast
  have cin: "c \<in> set (anns_of us)" using c(2) pool_of_subset by blast
  show ?thesis
  proof (cases "flagged hav la lo c")
    case False
    from select_unflagged[OF assms c(1) False] cin show ?thesis by blast
  next
    case True
    let ?inrad = "inrad_of hav la lo (anns_of us)"
    show ?thesis
    proof (cases "sort_key (\<lambda>t. (fst t, fst (snd t))) ?inrad")
      case Nil
      then show ?thesis using select_flagged[OF assms c(1) True] cin by auto
    next
      case (Cons t ts)
      then have "t \<in> set ?inrad" by (metis list.set_intros(1) set_sort)
      then have "snd (snd t) \<in> set (anns_of us)" by (auto simp: inrad_of_def)
      then show ?thesis using select_flagged[OF assms c(1) True] Cons by auto
    qed
  qed
qed

text \<open>
  Claim C10, as amended. \<open>select_best_annachi\<close> returns no provider exactly when no user has
  role \<open>annachi\<close>; otherwise it returns a provider of that role. The distance that comes
  with it is present exactly when the consumer's and the chosen provider's coordinates
  are all present and the evaluation returns a value below the threshold; it is then that
  value rounded to three decimals: a whole number of thousandths, at most half a
  thousandth away, the even one on a tie. In every other case, also when the evaluation
  raises, no distance is returned.
\<close>

theorem select_totality:
  "(fst (select_best_annachi hav us pin la lo) = None \<longleftrightarrow> \<not> (\<exists>u \<in> set us. role u = ''annachi''))
   \<and> ((\<exists>u \<in> set us. role u = ''annachi'') \<longrightarrow>
        (\<exists>c. c \<in> set us \<and> role c = ''annachi''
           \<and> select_best_annachi hav us pin la lo
                = (Some c, map_option round3 (evaluated_distance hav la lo c))
           \<and> (evaluated_distance hav la lo c \<noteq> None \<longleftrightarrow>
                 (\<exists>cla clo sa so d. la = Some cla \<and> lo = Some clo
                     \<and> shop_lat c = Some sa \<and> shop_lng c = Some so
                     \<and> hav cla clo sa so = Some d \<and> d < 10 ^ 8))
           \<and> (\<forall>d. evaluated_distance hav la lo c = Some d \<longrightarrow>
                 (\<exists>n::int. round3 d = real_of_int n / 1000 \<and> \<bar>round3 d - d\<bar> \<le> 1 / 2000
                     \<and> (\<bar>round3 d - d\<bar> = 1 / 2000 \<longrightarrow> even n)))))"
proof (cases "anns_of us = []")
  case True
  then have "\<not> (\<exists>u \<in> set us. role u = ''annachi'')" by (auto simp: anns_of_def filter_empty_conv)
  then show ?thesis using select_empty[OF True] by simp
next
  case False
  then have ex: "\<exists>u \<in> set us. role u = ''annachi''" by (auto simp: anns_of_def filter_empty_conv)
  from select_some[OF False] obtain c where c: "c \<in> set (anns_of us)"
      "select_best_annachi hav us pin la lo = (Some c, dist_of hav la lo c)" by blast
  have m: "c \<in> set us" "role c = ''annachi''" using c(1) by (simp_all add: anns_of_def)
  have r: "select_best_annachi hav us pin la lo
             = (Some c, map_option round3 (evaluated_distance hav la lo c))"
    using c(2) by (simp only: dist_of_evaluated)
  have g: "\<forall>d. evaluated_distance hav la lo c = Some d \<longrightarrow>
                 (\<exists>n::int. round3 d = real_of_int n / 1000 \<and> \<bar>round3 d - d\<bar> \<le> 1 / 2000
                     \<and> (\<bar>round3 d - d\<bar> = 1 / 2000 \<longrightarrow> even n))"
    using round3_spec by blast
  have f: "fst (select_best_annachi hav us pin la lo) \<noteq> None" using r by simp
  show ?thesis
    using ex f m r g evaluated_distance_iff[of hav la lo c] by blast
qed

text \<open>
  Claim C10 as stated fails: with all four coordinates present, the evaluation raises, the
  \<open>except\<close> branch of \<open>_distance_km\<close> answers the sentinel, and no distance is returned.
\<close>

theorem distance_absent_with_coordinates:
  "select_best_annachi raising_hav [far_shop] None (Some 0.074) (Some 0) = (Some far_shop, None)
   \<and> shop_lat far_shop = Some 179.926 \<and> shop_lng far_shop = Some 180"
  by (simp add: select_best_annachi_def far_shop_def raising_hav_def score_def distance_km_def
        radius_or_0_def inrad_of_def Let_def)

lemma demo_hav_bounded: "hav_bounded demo_hav la lo"
  by (auto simp: hav_bounded_def demo_hav_def min_def)

lemma ann2_within: "within_radius demo_hav 0 0 ann2"
  by (simp add: within_radius_def demo_hav_def ann2_def)

theorem select_in_radius_guarantee_witness:
  "hav_bounded demo_hav 0 0 \<and> ann2 \<in> set demo_users \<and> role ann2 = ''annachi''
   \<and> within_radius demo_hav 0 0 ann2
   \<and> (\<exists>c dist. select_best_annachi demo_hav demo_users (Some ''600001'') (Some 0) (Some 0) = (Some c, dist)
          \<and> c \<in> set demo_users \<and> role c = ''annachi'' \<and> \<not> exceeds_radius demo_hav 0 0 c)"
proof -
  have h1: "hav_bounded demo_hav 0 0" by (rule demo_hav_bounded)
  have h2: "ann2 \<in> set demo_users" by (simp add: demo_users_def)
  have h3: "role ann2 = ''annachi''" by (simp add: ann2_def)
  have h4: "within_radius demo_hav 0 0 ann2" by (rule ann2_within)
  from select_in_radius_guarantee[OF h1 h2 h3 h4, of "Some ''600001''"] h1 h2 h3 h4
  show ?thesis by blast
qed

theorem select_prefers_same_pincode_witness:
  "''600002 '' \<noteq> [] \<and> ann2 \<in> set demo_users \<and> role ann2 = ''annachi''
   \<and> same_pincode ''600002 '' ann2
   \<and> within_radius demo_hav (the (Some 0)) (the (Some 0)) ann2
   \<and> (\<exists>c dist. select_best_annachi demo_hav demo_users (Some ''600002 '') (Some 0) (Some 0) = (Some c, dist)
          \<and> c \<in> set demo_users \<and> role c = ''annachi'' \<and> same_pincode ''600002 '' c)"
proof -
  have h1: "''600002 '' \<noteq> []" by simp
  have h2: "ann2 \<in> set demo_users" by (simp add: demo_users_def)
  have h3: "role ann2 = ''annachi''" by (simp add: ann2_def)
  have h4: "same_pincode ''600002 '' ann2"
    by (simp add: same_pincode_def ann2_def or_empty_def py_strip_def is_space_def)
  have h5: "within_radius demo_hav (the (Some 0)) (the (Some 0)) ann2" using ann2_within by simp
  then have h6: "Some 0 = None \<or> Some 0 = None \<or> within_radius demo_hav (the (Some 0)) (the (Some 0)) ann2"
    by simp
  from select_prefers_same_pincode[OF h1 h2 h3 h4 h6] h1 h2 h3 h4 h5
  show ?thesis by blast
qed

lemma near_select:
  "fst (select_best_annachi demo_hav demo_users None (Some 0.0004) (Some 0)) = Some ann2"
  by (simp add: demo_users_def ann1_def ann2_def consumer7_def demo_hav_def select_best_annachi_def
        score_def distance_km_def radius_or_0_def inrad_of_def Let_def)

lemma near_evaluated: "evaluated_distance demo_hav (Some 0.0004) (Some 0) ann2 = Some 2.9996"
  by (simp add: evaluated_distance_def demo_hav_def ann2_def)

lemma near_rounded: "round3 2.9996 = 3"
  by (simp add: round3_def round_half_even_def Let_def)

theorem select_totality_witness:
  "(\<exists>u \<in> set demo_users. role u = ''annachi'')
   \<and> evaluated_distance demo_hav (Some 0.0004) (Some 0) ann2 = Some 2.9996
   \<and> select_best_annachi demo_hav demo_users None (Some 0.0004) (Some 0) = (Some ann2, Some 3)"
proof -
  have h: "\<exists>u \<in> set demo_users. role u = ''annachi''" by (simp add: demo_users_def ann1_def)
  from select_totality[of demo_hav demo_users None "Some 0.0004" "Some 0"] h
  obtain c where c: "select_best_annachi demo_hav demo_users None (Some 0.0004) (Some 0)
      = (Some c, map_option round3 (evaluated_distance demo_hav (Some 0.0004) (Some 0) c))"
    by blast
  then have "c = ann2" using near_select by (simp only: fst_conv option.inject)
  then have "select_best_annachi demo_hav demo_users None (Some 0.0004) (Some 0)
      = (Some ann2, map_option round3 (evaluated_distance demo_hav (Some 0.0004) (Some 0) ann2))"
    using c by (simp only:)
  then have "select_best_annachi demo_hav demo_users None (Some 0.0004) (Some 0) = (Some ann2, Some 3)"
    by (simp only: near_evaluated option.map near_rounded)
  then show ?thesis using h near_evaluated by (simp only: simp_thms)
qed


section \<open>Bundle placement: validation and availability\<close>


lemma check_items_acc:
  "check_items ps ann its (unav, found) =
     (unav @ List.map_filter (line_problem ps ann) its, found @ List.map_filter (line_found ps ann) its)"
proof (induction its arbitrary: unav found)
  case Nil
  then show ?case by (simp add: List.map_filter_simps)
next
  case (Cons it its)
  then show ?case
    by (simp add: List.map_filter_simps line_problem_def line_found_def split: option.splits)
qed

lemma line_problem_iff: "line_problem ps ann it \<noteq> None \<longleftrightarrow> line_unavailable ps ann it"
  by (simp add: line_problem_def line_unavailable_def split: option.splits)

lemma line_found_iff: "line_found ps ann it = None \<longleftrightarrow> line_unavailable ps ann it"
  by (simp add: line_found_def line_unavailable_def split: option.splits)

lemma line_problem_names:
  "line_problem ps ann it = Some u \<Longrightarrow> un_name u = n_name it \<and> un_category u = n_category it"
  by (auto simp: line_problem_def split: option.splits if_splits)

lemma map_filter_empty_iff: "List.map_filter f xs = [] \<longleftrightarrow> (\<forall>x \<in> set xs. f x = None)"
  by (induction xs) (auto simp: List.map_filter_simps split: option.splits)

lemma length_map_filter: "length (List.map_filter f xs) = length (filter (\<lambda>x. f x \<noteq> None) xs)"
  by (induction xs) (auto simp: List.map_filter_simps split: option.splits)

lemma map_filter_all_some:
  "\<forall>x \<in> set xs. f x \<noteq> None \<Longrightarrow> List.map_filter f xs = map (\<lambda>x. the (f x)) xs"
  by (induction xs) (auto simp: List.map_filter_simps split: option.splits)

lemma set_map_filter: "set (List.map_filter f xs) = {y. \<exists>x \<in> set xs. f x = Some y}"
  by (induction xs) (auto simp: List.map_filter_simps split: option.splits)

lemma normalize_items_length:
  "normalize_items its acc = Inr nits \<Longrightarrow> length nits = length acc + length its"
  by (induction its arbitrary: acc) (auto split: option.splits)

lemma normalize_items_valid:
  "\<forall>it \<in> set its. normalize_item it \<noteq> None \<Longrightarrow>
   normalize_items its acc = Inr (acc @ map (\<lambda>it. the (normalize_item it)) its)"
  by (induction its arbitrary: acc) (auto split: option.splits)

lemma normalize_items_first_invalid:
  "\<forall>it \<in> set pre. normalize_item it \<noteq> None \<Longrightarrow> normalize_item bad = None \<Longrightarrow>
   normalize_items (pre @ bad # rest) acc = Inl bad"
  by (induction pre arbitrary: acc) (auto split: option.splits)

lemmas demo_defs = demo_db_def demo_users_def ann1_def ann2_def consumer7_def rice1_def rice2_def
  tomato2_def at_origin_def line_def demo_hav_def

lemmas sel_defs = select_best_annachi_def score_def distance_km_def radius_or_0_def inrad_of_def
  py_strip_def is_space_def or_empty_def round3_def round_half_even_def Let_def

lemma demo_select:
  "select_best_annachi demo_hav demo_users None (Some 0) (Some 0) = (Some ann2, Some 3)"
  by (simp add: demo_defs sel_defs)

lemma normalize_rice0:
  "normalize_item (line ''Rice'' ''cereals'' 0) = Some \<lparr>n_name = ''Rice'', n_category = ''cereals'', n_qty = 1\<rparr>"
  by (simp add: normalize_item_def line_def int_or_1_def FIXED_CATS_def py_lower_def lower_char_def
        py_strip_def is_space_def or_empty_def)

text \<open>
  Claim C6, at the input that breaks it. A cart whose only line asks for quantity 0 is
  not rejected: \<open>int(it.get("quantity") or 1)\<close> turns the 0 into 1 before the test
  \<open>qty < 1\<close>, a provider is selected, one unit of stock is taken and an order line of
  quantity 1 is created.
\<close>

theorem quantity_zero_is_accepted:
  "orders_create_auto demo_hav demo_db consumer7 1000 True
      \<lparr>items = [line ''Rice'' ''cereals'' 0], consumer = at_origin\<rparr>
   = (demo_db\<lparr>products := [rice2\<lparr>stock := 4, total_purchased := Some 1\<rparr>, tomato2, rice1],
             orders := [\<lparr>oid = 1, consumer_id = 7, product_id = 1, quantity = 1, status = ''Pending'',
                         assigned_annachi_id = Some 2, bundle_id = Some ''1000-7-A2''\<rparr>]\<rparr>,
      CreatedAuto [1] ''1000-7-A2'' 2 (Some 3))"
  by (simp add: orders_create_auto_def normalize_rice0 demo_select demo_db_def at_origin_def consumer7_def
        product_for_def rice2_def tomato2_def rice1_def ann2_def or_empty_def auto_bundle_id_def str_int_def
        digit_char_def new_order_def next_order_id_def update_product_def purchase_def Let_def)

lemma unavailable_nonempty:
  assumes "\<exists>it \<in> set nits. line_unavailable ps ann it"
  shows "List.map_filter (line_problem ps ann) nits \<noteq> []"
proof
  assume "List.map_filter (line_problem ps ann) nits = []"
  then have "\<forall>it \<in> set nits. line_problem ps ann it = None" by (simp only: map_filter_empty_iff)
  then show False using assms line_problem_iff by blast
qed

lemma orders_create_auto_checked:
  assumes "role cu = ''consumer''" "items pl \<noteq> []"
      and "normalize_items (items pl) [] = Inr nits"
      and "select_best_annachi hav (users d) (c_pincode (consumer pl)) (c_lat (consumer pl))
             (c_lng (consumer pl)) = (Some ann, dk)"
  shows "orders_create_auto hav d cu now_ms commit_ok pl =
          (if List.map_filter (line_problem (products d) ann) nits \<noteq> [] then
             (d, SomeItemsUnavailable (uid ann) (user_pincode ann) dk
                   (List.map_filter (line_problem (products d) ann) nits))
           else if commit_ok then
             (fst (create_lines (List.map_filter (line_found (products d) ann) nits) (uid cu) (uid ann)
                     (auto_bundle_id now_ms (uid cu) (uid ann)) d []),
              CreatedAuto
                (snd (create_lines (List.map_filter (line_found (products d) ann) nits) (uid cu) (uid ann)
                     (auto_bundle_id now_ms (uid cu) (uid ann)) d []))
                (auto_bundle_id now_ms (uid cu) (uid ann)) (uid ann) dk)
           else (d, FailedToCreate))"
  using assms by (simp add: orders_create_auto_def check_items_acc Let_def split: prod.splits)

text \<open>
  Claim C1. When a request has passed validation, a provider has been selected and at
  least one line is unavailable from that provider, \<open>orders_create_auto\<close> answers with the
  conflict that carries one entry for every unavailable line, and the database it
  returns is the one it was given: no stock and no \<open>total_purchased\<close> counter has changed.
\<close>

theorem reserve_all_or_nothing:
  assumes "role cu = ''consumer''" "items pl \<noteq> []"
      and "normalize_items (items pl) [] = Inr nits"
      and "select_best_annachi hav (users d) (c_pincode (consumer pl)) (c_lat (consumer pl))
             (c_lng (consumer pl)) = (Some ann, dk)"
      and "\<exists>it \<in> set nits. line_unavailable (products d) ann it"
  shows "\<exists>unav. orders_create_auto hav d cu now_ms commit_ok pl
                  = (d, SomeItemsUnavailable (uid ann) (user_pincode ann) dk unav)
           \<and> length unav = length (filter (line_unavailable (products d) ann) nits)
           \<and> (\<forall>it \<in> set nits. line_unavailable (products d) ann it \<longrightarrow>
                 (\<exists>u \<in> set unav. un_name u = n_name it \<and> un_category u = n_category it))"
proof -
  let ?unav = "List.map_filter (line_problem (products d) ann) nits"
  have ne: "?unav \<noteq> []" using assms(5) by (rule unavailable_nonempty)
  have r: "orders_create_auto hav d cu now_ms commit_ok pl
            = (d, SomeItemsUnavailable (uid ann) (user_pincode ann) dk ?unav)"
    using orders_create_auto_checked[OF assms(1-4)] ne by simp
  have "filter (\<lambda>it. line_problem (products d) ann it \<noteq> None) nits
          = filter (line_unavailable (products d) ann) nits"
    by (rule filter_cong) (simp_all only: line_problem_iff)
  then have l: "length ?unav = length (filter (line_unavailable (products d) ann) nits)"
    by (simp only: length_map_filter)
  have c: "\<forall>it \<in> set nits. line_unavailable (products d) ann it \<longrightarrow>
             (\<exists>u \<in> set ?unav. un_name u = n_name it \<and> un_category u = n_category it)"
  proof (intro ballI impI)
    fix it assume it: "it \<in> set nits" "line_unavailable (products d) ann it"
    then obtain u where u: "line_problem (products d) ann it = Some u"
      using line_problem_iff by blast
    then have "u \<in> set ?unav" using it(1) by (auto simp: set_map_filter)
    then show "\<exists>u \<in> set ?unav. un_name u = n_name it \<and> un_category u = n_category it"
      using line_problem_names[OF u] by blast
  qed
  show ?thesis using r l c by blast
qed

text \<open>
  Claim C7, as amended. The validation loop returns at the first invalid line and reports
  that line only. The availability loop looks at every line: the conflict carries, in
  input order, one entry for each unavailable line, with the reason
  \<open>not_found_for_selected_annachi\<close> or \<open>insufficient_stock (n left)\<close>.
\<close>

theorem problem_reporting:
  "(role cu = ''consumer'' \<and> (\<forall>it \<in> set pre. normalize_item it \<noteq> None) \<and> normalize_item bad = None
      \<longrightarrow> orders_create_auto hav d cu now_ms commit_ok (pl\<lparr>items := pre @ bad # rest\<rparr>)
            = (d, InvalidLineItem bad))
   \<and> (role cu = ''consumer'' \<and> items pl \<noteq> [] \<and> normalize_items (items pl) [] = Inr nits
       \<and> select_best_annachi hav (users d) (c_pincode (consumer pl)) (c_lat (consumer pl))
             (c_lng (consumer pl)) = (Some ann, dk)
       \<and> (\<exists>it \<in> set nits. line_unavailable (products d) ann it)
      \<longrightarrow> orders_create_auto hav d cu now_ms commit_ok pl
            = (d, SomeItemsUnavailable (uid ann) (user_pincode ann) dk
                    (List.map_filter (line_problem (products d) ann) nits)))"
proof (intro conjI impI)
  assume a: "role cu = ''consumer'' \<and> (\<forall>it \<in> set pre. normalize_item it \<noteq> None) \<and> normalize_item bad = None"
  then have "normalize_items (pre @ bad # rest) [] = Inl bad"
    by (simp add: normalize_items_first_invalid)
  then show "orders_create_auto hav d cu now_ms commit_ok (pl\<lparr>items := pre @ bad # rest\<rparr>)
            = (d, InvalidLineItem bad)"
    using a by (simp add: orders_create_auto_def)
next
  assume a: "role cu = ''consumer'' \<and> items pl \<noteq> [] \<and> normalize_items (items pl) [] = Inr nits
       \<and> select_best_annachi hav (users d) (c_pincode (consumer pl)) (c_lat (consumer pl))
             (c_lng (consumer pl)) = (Some ann, dk)
       \<and> (\<exists>it \<in> set nits. line_unavailable (products d) ann it)"
  then have ne: "List.map_filter (line_problem (products d) ann) nits \<noteq> []"
    by (simp add: unavailable_nonempty)
  from a have "role cu = ''consumer''" "items pl \<noteq> []" "normalize_items (items pl) [] = Inr nits"
    "select_best_annachi hav (users d) (c_pincode (consumer pl)) (c_lat (consumer pl))
             (c_lng (consumer pl)) = (Some ann, dk)" by simp_all
  from orders_create_auto_checked[OF this] ne
  show "orders_create_auto hav d cu now_ms commit_ok pl
            = (d, SomeItemsUnavailable (uid ann) (user_pincode ann) dk
                    (List.map_filter (line_problem (products d) ann) nits))" by simp
qed

lemmas norm_defs = normalize_item_def line_def int_or_1_def FIXED_CATS_def py_lower_def lower_char_def
  py_strip_def is_space_def or_empty_def

lemma normalize_cart_short: "normalize_items (items cart_short) [] = Inr [n_rice1, n_tomato2]"
  by (simp add: cart_short_def n_rice1_def n_tomato2_def norm_defs)

lemma demo_select_origin:
  "select_best_annachi demo_hav (users demo_db) (c_pincode (consumer cart_short))
     (c_lat (consumer cart_short)) (c_lng (consumer cart_short)) = (Some ann2, Some 3)"
  using demo_select by (simp add: demo_db_def cart_short_def at_origin_def)

lemma tomato_short: "line_unavailable (products demo_db) ann2 n_tomato2"
  by (simp add: line_unavailable_def product_for_def demo_db_def rice2_def tomato2_def rice1_def
        ann2_def n_tomato2_def or_empty_def)

lemma bad_category_invalid: "normalize_item bad_category = None"
  by (simp add: bad_category_def norm_defs)

lemma bad_name_invalid: "normalize_item bad_name = None"
  by (simp add: bad_name_def norm_defs)

theorem reserve_all_or_nothing_witness:
  "role consumer7 = ''consumer'' \<and> items cart_short \<noteq> []
   \<and> normalize_items (items cart_short) [] = Inr [n_rice1, n_tomato2]
   \<and> select_best_annachi demo_hav (users demo_db) (c_pincode (consumer cart_short))
        (c_lat (consumer cart_short)) (c_lng (consumer cart_short)) = (Some ann2, Some 3)
   \<and> (\<exists>it \<in> set [n_rice1, n_tomato2]. line_unavailable (products demo_db) ann2 it)
   \<and> (\<exists>unav. orders_create_auto demo_hav demo_db consumer7 1000 True cart_short
                  = (demo_db, SomeItemsUnavailable (uid ann2) (user_pincode ann2) (Some 3) unav)
           \<and> length unav = length (filter (line_unavailable (products demo_db) ann2) [n_rice1, n_tomato2])
           \<and> (\<forall>it \<in> set [n_rice1, n_tomato2]. line_unavailable (products demo_db) ann2 it \<longrightarrow>
                 (\<exists>u \<in> set unav. un_name u = n_name it \<and> un_category u = n_category it)))"
proof -
  have h1: "role consumer7 = ''consumer''" by (simp add: consumer7_def)
  have h2: "items cart_short \<noteq> []" by (simp add: cart_short_def)
  note h3 = normalize_cart_short
  note h4 = demo_select_origin
  have h5: "\<exists>it \<in> set [n_rice1, n_tomato2]. line_unavailable (products demo_db) ann2 it"
    using tomato_short by simp
  from reserve_all_or_nothing[OF h1 h2 h3 h4 h5, of 1000 True] h1 h2 h3 h4 h5
  show ?thesis by blast
qed

text \<open>
  Claim C7 as stated fails: of two invalid lines, the response names the first only.
\<close>

theorem fail_fast_validation_counterexample:
  "snd (orders_create_auto demo_hav demo_db consumer7 1000 True
          \<lparr>items = [bad_category, bad_name], consumer = at_origin\<rparr>) = InvalidLineItem bad_category
   \<and> normalize_item bad_name = None \<and> bad_name \<noteq> bad_category"
  by (simp add: orders_create_auto_def consumer7_def bad_category_invalid bad_name_invalid)
     (simp add: bad_name_def bad_category_def line_def)

theorem problem_reporting_witness:
  "role consumer7 = ''consumer'' \<and> normalize_item (line ''Rice'' ''cereals'' 1) \<noteq> None
   \<and> normalize_item bad_category = None
   \<and> orders_create_auto demo_hav demo_db consumer7 1000 True
        (cart_short\<lparr>items := [line ''Rice'' ''cereals'' 1] @ bad_category # [bad_name]\<rparr>)
      = (demo_db, InvalidLineItem bad_category)
   \<and> items cart_short \<noteq> []
   \<and> normalize_items (items cart_short) [] = Inr [n_rice1, n_tomato2]
   \<and> select_best_annachi demo_hav (users demo_db) (c_pincode (consumer cart_short))
        (c_lat (consumer cart_short)) (c_lng (consumer cart_short)) = (Some ann2, Some 3)
   \<and> (\<exists>it \<in> set [n_rice1, n_tomato2]. line_unavailable (products demo_db) ann2 it)
   \<and> orders_create_auto demo_hav demo_db consumer7 1000 True cart_short
      = (demo_db, SomeItemsUnavailable (uid ann2) (user_pincode ann2) (Some 3)
           (List.map_filter (line_problem (products demo_db) ann2) [n_rice1, n_tomato2]))"
proof -
  have h1: "role consumer7 = ''consumer''" by (simp add: consumer7_def)
  have h2: "normalize_item (line ''Rice'' ''cereals'' 1) \<noteq> None" by (simp add: norm_defs)
  note h3 = bad_category_invalid
  have h4: "items cart_short \<noteq> []" by (simp add: cart_short_def)
  note h5 = normalize_cart_short
  note h6 = demo_select_origin
  have h7: "\<exists>it \<in> set [n_rice1, n_tomato2]. line_unavailable (products demo_db) ann2 it"
    using tomato_short by simp
  note t = problem_reporting[where cu = consumer7 and pre = "[line ''Rice'' ''cereals'' 1]"
      and bad = bad_category and rest = "[bad_name]" and hav = demo_hav and d = demo_db
      and now_ms = 1000 and commit_ok = True and pl = cart_short and nits = "[n_rice1, n_tomato2]"
      and ann = ann2 and dk = "Some 3"]
  have a: "orders_create_auto demo_hav demo_db consumer7 1000 True
        (cart_short\<lparr>items := [line ''Rice'' ''cereals'' 1] @ bad_category # [bad_name]\<rparr>)
      = (demo_db, InvalidLineItem bad_category)"
    using t h1 h2 h3 by simp
  have b: "orders_create_auto demo_hav demo_db consumer7 1000 True cart_short
      = (demo_db, SomeItemsUnavailable (uid ann2) (user_pincode ann2) (Some 3)
           (List.map_filter (line_problem (products demo_db) ann2) [n_rice1, n_tomato2]))"
    using t h1 h4 h5 h6 h7 by blast
  show ?thesis using h1 h2 h3 h4 h5 h6 h7 a b by blast
qed

lemma spec_example_conflict:
  "orders_create_auto demo_hav demo_db consumer7 1000 True cart_short
     = (demo_db, SomeItemsUnavailable 2 (Some ''600002'') (Some 3)
          [\<lparr>un_name = ''Tomato'', un_category = ''vegetables'', un_reason = ''insufficient_stock (1 left)''\<rparr>])"
proof -
  have h1: "role consumer7 = ''consumer''" by (simp add: consumer7_def)
  have h2: "items cart_short \<noteq> []" by (simp add: cart_short_def)
  have u: "List.map_filter (line_problem (products demo_db) ann2) [n_rice1, n_tomato2]
            = [\<lparr>un_name = ''Tomato'', un_category = ''vegetables'', un_reason = ''insufficient_stock (1 left)''\<rparr>]"
    by (simp add: List.map_filter_simps line_problem_def product_for_def demo_db_def rice2_def tomato2_def
          rice1_def ann2_def n_rice1_def n_tomato2_def or_empty_def str_int_def digit_char_def)
  from orders_create_auto_checked[OF h1 h2 normalize_cart_short demo_select_origin, of 1000 True]
  have "orders_create_auto demo_hav demo_db consumer7 1000 True cart_short
     = (demo_db, SomeItemsUnavailable (uid ann2) (user_pincode ann2) (Some 3)
          [\<lparr>un_name = ''Tomato'', un_category = ''vegetables'', un_reason = ''insufficient_stock (1 left)''\<rparr>])"
    unfolding u by simp
  then show ?thesis by (simp add: ann2_def)
qed


section \<open>Bundle placement: the creation loop\<close>

lemma apply_rows_Nil: "apply_rows [] p = p"
  by (simp add: apply_rows_def)

lemma apply_rows_Cons:
  "apply_rows ((pr, q) # rows) p = apply_rows rows (if pid p = pid pr then purchase q p else p)"
  by (simp add: apply_rows_def)

lemma pid_purchase: "pid (purchase q p) = pid p"
  by (simp add: purchase_def)

lemma purchase_purchase: "purchase b (purchase a p) = purchase (a + b) p"
  by (simp add: purchase_def split: option.splits)

lemma create_lines_char:
  "create_lines rows cid aid bid d created =
     (d\<lparr>products := map (apply_rows rows) (products d),
        orders := orders d @ lines_of rows cid aid bid (orders d)\<rparr>,
      created @ map oid (lines_of rows cid aid bid (orders d)))"
proof (induction rows arbitrary: d created)
  case Nil
  then show ?case by (simp add: apply_rows_Nil)
next
  case (Cons row rows)
  obtain pr q where row: "row = (pr, q)" by (cases row)
  have m: "map (apply_rows rows) (update_product (pid pr) (purchase q) (products d))
             = map (apply_rows ((pr, q) # rows)) (products d)"
    by (simp add: update_product_def apply_rows_Cons)
  show ?case unfolding row by (simp add: Cons.IH m Let_def)
qed

lemma length_lines_of: "length (lines_of rows cid aid bid os) = length rows"
  by (induction rows cid aid bid os rule: lines_of.induct) (simp_all add: Let_def)

lemma lines_of_fields:
  "o' \<in> set (lines_of rows cid aid bid os) \<Longrightarrow>
     status o' = ''Pending'' \<and> assigned_annachi_id o' = Some aid \<and> bundle_id o' = Some bid
     \<and> consumer_id o' = cid"
  by (induction rows cid aid bid os rule: lines_of.induct) (auto simp: Let_def new_order_def)

lemma lines_of_quantity: "map quantity (lines_of rows cid aid bid os) = map snd rows"
  by (induction rows cid aid bid os rule: lines_of.induct) (simp_all add: Let_def new_order_def)

lemma lines_of_product_id:
  "map product_id (lines_of rows cid aid bid os) = map (\<lambda>r. pid (fst r)) rows"
  by (induction rows cid aid bid os rule: lines_of.induct) (simp_all add: Let_def new_order_def)

lemma fold_max_ge: "(x::int) \<in> set (i # ids) \<Longrightarrow> x \<le> fold max ids i"
proof -
  assume a: "x \<in> set (i # ids)"
  have "fold max ids i = Max (set (i # ids))" by (simp only: Max.set_eq_fold)
  moreover have "x \<le> Max (set (i # ids))" using a by (intro Max_ge) simp_all
  ultimately show ?thesis by simp
qed

lemma next_order_id_fresh: "o' \<in> set os \<Longrightarrow> oid o' < next_order_id os"
proof -
  assume a: "o' \<in> set os"
  then obtain x xs where e: "map oid os = x # xs" by (cases os) auto
  have "oid o' \<in> set (x # xs)" using a e by (metis image_eqI list.set_map)
  then have "oid o' \<le> fold max xs x" by (rule fold_max_ge)
  then show ?thesis by (simp add: next_order_id_def e)
qed

lemma lines_of_ids:
  "sorted_wrt (<) (map oid (lines_of rows cid aid bid os))
   \<and> (\<forall>l \<in> set (lines_of rows cid aid bid os). \<forall>o' \<in> set os. oid o' < oid l)"
proof (induction rows cid aid bid os rule: lines_of.induct)
  case (1 cid aid bid os)
  then show ?case by simp
next
  case (2 p q rows cid aid bid os)
  let ?o = "new_order os cid (pid p) q aid bid"
  have ih: "sorted_wrt (<) (map oid (lines_of rows cid aid bid (os @ [?o])))"
       "\<forall>l \<in> set (lines_of rows cid aid bid (os @ [?o])). \<forall>o' \<in> set (os @ [?o]). oid o' < oid l"
    using 2 by simp_all
  have f: "\<forall>o' \<in> set os. oid o' < oid ?o"
    using next_order_id_fresh by (simp add: new_order_def)
  show ?case using ih f by (auto simp: Let_def)
qed

lemma apply_rows_pid: "pid (apply_rows rows p) = pid p"
  by (induction rows arbitrary: p) (auto simp: apply_rows_Nil apply_rows_Cons pid_purchase)

lemma rows_qty_Cons:
  "rows_qty ((pr, q) # rows) k = (if pid pr = k then q else 0) + rows_qty rows k"
  by (simp add: rows_qty_def)

lemma apply_rows_purchase:
  "apply_rows rows (purchase q0 p) = purchase (q0 + rows_qty rows (pid p)) p"
proof (induction rows arbitrary: q0)
  case Nil
  then show ?case by (simp add: apply_rows_Nil rows_qty_def)
next
  case (Cons row rows)
  obtain pr q where row: "row = (pr, q)" by (cases row)
  show ?case unfolding row
    by (simp add: apply_rows_Cons pid_purchase purchase_purchase Cons.IH rows_qty_Cons add.assoc)
qed

lemma apply_rows_total:
  "apply_rows rows p =
     (if \<exists>r \<in> set rows. pid (fst r) = pid p then purchase (rows_qty rows (pid p)) p else p)"
proof (induction rows)
  case Nil
  then show ?case by (simp add: apply_rows_Nil)
next
  case (Cons row rows)
  obtain pr q where row: "row = (pr, q)" by (cases row)
  show ?case
  proof (cases "pid p = pid pr")
    case True
    then show ?thesis unfolding row using apply_rows_purchase[of rows q p]
      by (simp add: apply_rows_Cons rows_qty_Cons)
  next
    case False
    then show ?thesis unfolding row using Cons.IH
      by (auto simp: apply_rows_Cons rows_qty_Cons)
  qed
qed

lemma available_product:
  "\<not> line_unavailable ps ann it \<Longrightarrow> \<exists>p. product_for ps ann it = Some p \<and> \<not> stock p < n_qty it"
  by (auto simp: line_unavailable_def split: option.splits)

lemma found_rows_available:
  "\<forall>it \<in> set nits. \<not> line_unavailable ps ann it \<Longrightarrow>
   List.map_filter (line_found ps ann) nits = rows_for ps ann nits"
proof (induction nits)
  case Nil
  then show ?case by (simp add: List.map_filter_simps rows_for_def)
next
  case (Cons it nits)
  then obtain p where "product_for ps ann it = Some p" "\<not> stock p < n_qty it"
    using available_product[of ps ann it] by auto
  then show ?case using Cons by (simp add: List.map_filter_simps rows_for_def line_found_def)
qed

lemma no_problem_available:
  "\<forall>it \<in> set nits. \<not> line_unavailable ps ann it \<Longrightarrow>
   List.map_filter (line_problem ps ann) nits = []"
proof -
  assume a: "\<forall>it \<in> set nits. \<not> line_unavailable ps ann it"
  have "\<forall>it \<in> set nits. line_problem ps ann it = None"
    using a line_problem_iff by blast
  then show ?thesis by (simp only: map_filter_empty_iff)
qed

lemma rows_qty_reserved:
  "\<forall>it \<in> set nits. \<not> line_unavailable ps ann it \<Longrightarrow>
   rows_qty (rows_for ps ann nits) k = reserved_qty ps ann nits k"
proof (induction nits)
  case Nil
  then show ?case by (simp add: rows_qty_def rows_for_def reserved_qty_def)
next
  case (Cons it nits)
  then obtain p where p: "product_for ps ann it = Some p"
    using available_product[of ps ann it] by auto
  have ih: "rows_qty (rows_for ps ann nits) k = reserved_qty ps ann nits k" using Cons by simp
  have "rows_for ps ann (it # nits) = (p, n_qty it) # rows_for ps ann nits"
    by (simp add: rows_for_def p)
  then show ?case using ih p by (simp add: rows_qty_Cons reserved_qty_def resolves_to_def)
qed

lemma rows_match:
  "\<forall>it \<in> set nits. \<not> line_unavailable ps ann it \<Longrightarrow>
   (\<exists>r \<in> set (rows_for ps ann nits). pid (fst r) = k) \<longleftrightarrow> (\<exists>it \<in> set nits. resolves_to ps ann k it)"
proof (induction nits)
  case Nil
  then show ?case by (simp add: rows_for_def)
next
  case (Cons it nits)
  then obtain p where p: "product_for ps ann it = Some p"
    using available_product[of ps ann it] by auto
  have ih: "(\<exists>r \<in> set (rows_for ps ann nits). pid (fst r) = k) \<longleftrightarrow> (\<exists>it \<in> set nits. resolves_to ps ann k it)"
    using Cons by simp
  have "rows_for ps ann (it # nits) = (p, n_qty it) # rows_for ps ann nits"
    by (simp add: rows_for_def p)
  then show ?case using ih p by (simp add: resolves_to_def)
qed

lemma rows_for_products:
  "\<forall>it \<in> set nits. \<not> line_unavailable ps ann it \<Longrightarrow>
   map (\<lambda>r. Some (pid (fst r))) (rows_for ps ann nits)
     = map (\<lambda>it. map_option pid (product_for ps ann it)) nits"
proof (induction nits)
  case Nil
  then show ?case by (simp add: rows_for_def)
next
  case (Cons it nits)
  then obtain p where p: "product_for ps ann it = Some p"
    using available_product[of ps ann it] by auto
  show ?case using Cons p by (simp add: rows_for_def)
qed

text \<open>
  The effect of a successful placement, in terms of the normalised lines. With every line
  available and the commit succeeding, \<open>orders_create_auto\<close> returns one bundle id and one
  fresh order id per item; the new order rows are appended, each with status \<open>Pending\<close>,
  the selected provider, the bundle id, the consumer's id and the quantity and product of
  its line; each product some line resolves to has its stock lowered and its
  \<open>total_purchased\<close> raised by the normalised quantity asked of it; nothing else changes.
  The normalised quantity of a line is the requested one when that is at least 1
  (\<open>normalize_item_quantity\<close> below).
\<close>

lemma placement_postcondition:
  assumes "role cu = ''consumer''" "items pl \<noteq> []"
      and "normalize_items (items pl) [] = Inr nits"
      and "select_best_annachi hav (users d) (c_pincode (consumer pl)) (c_lat (consumer pl))
             (c_lng (consumer pl)) = (Some ann, dk)"
      and avail: "\<forall>it \<in> set nits. \<not> line_unavailable (products d) ann it"
      and "commit_ok"
  shows "\<exists>d' new.
           orders_create_auto hav d cu now_ms commit_ok pl
             = (d', CreatedAuto (map oid new) (auto_bundle_id now_ms (uid cu) (uid ann)) (uid ann) dk)
         \<and> length new = length (items pl)
         \<and> orders d' = orders d @ new
         \<and> distinct (map oid new) \<and> (\<forall>l \<in> set new. \<forall>o' \<in> set (orders d). oid o' < oid l)
         \<and> (\<forall>l \<in> set new. status l = ''Pending'' \<and> assigned_annachi_id l = Some (uid ann)
                \<and> bundle_id l = Some (auto_bundle_id now_ms (uid cu) (uid ann))
                \<and> consumer_id l = uid cu)
         \<and> map quantity new = map n_qty nits
         \<and> map (\<lambda>l. Some (product_id l)) new
              = map (\<lambda>it. map_option pid (product_for (products d) ann it)) nits
         \<and> users d' = users d
         \<and> products d'
              = map (\<lambda>p. if \<exists>it \<in> set nits. resolves_to (products d) ann (pid p) it
                          then p\<lparr>stock := stock p - reserved_qty (products d) ann nits (pid p),
                                 total_purchased :=
                                   Some ((case total_purchased p of None \<Rightarrow> 0 | Some t \<Rightarrow> t)
                                         + reserved_qty (products d) ann nits (pid p))\<rparr>
                          else p) (products d)"
proof -
  let ?bid = "auto_bundle_id now_ms (uid cu) (uid ann)"
  let ?rows = "rows_for (products d) ann nits"
  let ?new = "lines_of ?rows (uid cu) (uid ann) ?bid (orders d)"
  let ?d' = "d\<lparr>products := map (apply_rows ?rows) (products d), orders := orders d @ ?new\<rparr>"
  have r: "orders_create_auto hav d cu now_ms commit_ok pl = (?d', CreatedAuto (map oid ?new) ?bid (uid ann) dk)"
    using orders_create_auto_checked[OF assms(1-4), of now_ms commit_ok] assms(6)
    by (simp add: no_problem_available[OF avail] found_rows_available[OF avail] create_lines_char)
  have len: "length ?new = length (items pl)"
    using normalize_items_length[OF assms(3)] by (simp add: length_lines_of rows_for_def)
  have srt: "sorted_wrt (<) (map oid ?new)"
    using lines_of_ids[of ?rows "uid cu" "uid ann" ?bid "orders d"] by blast
  have ids: "distinct (map oid ?new)" "\<forall>l \<in> set ?new. \<forall>o' \<in> set (orders d). oid o' < oid l"
    using srt[unfolded strict_sorted_iff] lines_of_ids[of ?rows "uid cu" "uid ann" ?bid "orders d"]
    by blast+
  have fields: "\<forall>l \<in> set ?new. status l = ''Pending'' \<and> assigned_annachi_id l = Some (uid ann)
                \<and> bundle_id l = Some ?bid \<and> consumer_id l = uid cu"
    using lines_of_fields by blast
  have q: "map quantity ?new = map n_qty nits"
    by (simp add: lines_of_quantity rows_for_def comp_def)
  have "map (\<lambda>l. Some (product_id l)) ?new = map Some (map product_id ?new)" by simp
  also have "\<dots> = map (\<lambda>r. Some (pid (fst r))) ?rows" by (simp add: lines_of_product_id)
  also have "\<dots> = map (\<lambda>it. map_option pid (product_for (products d) ann it)) nits"
    by (rule rows_for_products[OF avail])
  finally have p: "map (\<lambda>l. Some (product_id l)) ?new
                    = map (\<lambda>it. map_option pid (product_for (products d) ann it)) nits" .
  have ps: "products ?d' = map (\<lambda>p. if \<exists>it \<in> set nits. resolves_to (products d) ann (pid p) it
                          then p\<lparr>stock := stock p - reserved_qty (products d) ann nits (pid p),
                                 total_purchased :=
                                   Some ((case total_purchased p of None \<Rightarrow> 0 | Some t \<Rightarrow> t)
                                         + reserved_qty (products d) ann nits (pid p))\<rparr>
                          else p) (products d)"
    by (simp add: apply_rows_total rows_match[OF avail] rows_qty_reserved[OF avail] purchase_def)
  show ?thesis
    apply (rule exI[of _ ?d'])
    apply (rule exI[of _ ?new])
    using r len ids fields q p ps by simp
qed

lemma normalize_cart_ok: "normalize_items (items cart_ok) [] = Inr [n_rice1, n_tomato1]"
  by (simp add: cart_ok_def n_rice1_def n_tomato1_def norm_defs)

lemma demo_select_ok:
  "select_best_annachi demo_hav (users demo_db) (c_pincode (consumer cart_ok))
     (c_lat (consumer cart_ok)) (c_lng (consumer cart_ok)) = (Some ann2, Some 3)"
  using demo_select by (simp add: demo_db_def cart_ok_def at_origin_def)

lemma spec_example_success:
  "orders_create_auto demo_hav demo_db consumer7 1000 True cart_ok
   = (demo_db\<lparr>products := [rice2\<lparr>stock := 4, total_purchased := Some 1\<rparr>,
                            tomato2\<lparr>stock := 0, total_purchased := Some 5\<rparr>, rice1],
             orders := [\<lparr>oid = 1, consumer_id = 7, product_id = 1, quantity = 1, status = ''Pending'',
                         assigned_annachi_id = Some 2, bundle_id = Some ''1000-7-A2''\<rparr>,
                        \<lparr>oid = 2, consumer_id = 7, product_id = 2, quantity = 1, status = ''Pending'',
                         assigned_annachi_id = Some 2, bundle_id = Some ''1000-7-A2''\<rparr>]\<rparr>,
      CreatedAuto [1, 2] ''1000-7-A2'' 2 (Some 3))"
proof -
  have h1: "role consumer7 = ''consumer''" by (simp add: consumer7_def)
  have h2: "items cart_ok \<noteq> []" by (simp add: cart_ok_def)
  have u: "List.map_filter (line_problem (products demo_db) ann2) [n_rice1, n_tomato1] = []"
    by (simp add: List.map_filter_simps line_problem_def product_for_def demo_db_def rice2_def tomato2_def
          rice1_def ann2_def n_rice1_def n_tomato1_def or_empty_def)
  have f: "List.map_filter (line_found (products demo_db) ann2) [n_rice1, n_tomato1]
             = [(rice2, 1), (tomato2, 1)]"
    by (simp add: List.map_filter_simps line_found_def product_for_def demo_db_def rice2_def tomato2_def
          rice1_def ann2_def n_rice1_def n_tomato1_def or_empty_def)
  have b: "auto_bundle_id 1000 7 2 = ''1000-7-A2''"
    by (simp add: auto_bundle_id_def str_int_def digit_char_def)
  have c: "create_lines [(rice2, 1), (tomato2, 1)] 7 2 ''1000-7-A2'' demo_db []
            = (demo_db\<lparr>products := [rice2\<lparr>stock := 4, total_purchased := Some 1\<rparr>,
                            tomato2\<lparr>stock := 0, total_purchased := Some 5\<rparr>, rice1],
                 orders := [\<lparr>oid = 1, consumer_id = 7, product_id = 1, quantity = 1, status = ''Pending'',
                         assigned_annachi_id = Some 2, bundle_id = Some ''1000-7-A2''\<rparr>,
                        \<lparr>oid = 2, consumer_id = 7, product_id = 2, quantity = 1, status = ''Pending'',
                         assigned_annachi_id = Some 2, bundle_id = Some ''1000-7-A2''\<rparr>]\<rparr>, [1, 2])"
    by (simp add: demo_db_def rice2_def tomato2_def rice1_def new_order_def next_order_id_def
          update_product_def purchase_def Let_def)
  have ids: "uid consumer7 = 7" "uid ann2 = 2" by (simp_all add: consumer7_def ann2_def)
  from orders_create_auto_checked[OF h1 h2 normalize_cart_ok demo_select_ok, of 1000 True]
  show ?thesis unfolding u f ids b c by simp
qed

lemma normalize_cart_zero: "normalize_items (items cart_zero) [] = Inr [n_rice1, n_tomato1]"
  by (simp add: cart_zero_def n_rice1_def n_tomato1_def norm_defs)

lemma select_by_pincode:
  "select_best_annachi hav (users demo_db) (c_pincode (consumer cart_zero))
     (c_lat (consumer cart_zero)) (c_lng (consumer cart_zero)) = (Some ann2, None)"
  by (simp add: demo_db_def cart_zero_def by_pincode_def demo_users_def ann1_def ann2_def consumer7_def
        select_best_annachi_def score_def distance_km_def radius_or_0_def py_strip_def is_space_def
        or_empty_def Let_def)

text \<open>
  Claim C5, at an input that breaks it. Every line of this cart is available from the
  selected provider and the call succeeds, but the line that asks for quantity 0 of Rice
  is placed with quantity 1: the stock of Rice falls from 5 to 4 and its
  \<open>total_purchased\<close> becomes 1, where the requested quantity is 0. The line that asks for
  1 of Tomato behaves as claimed. The provider is selected by postal code, so the run is
  the same for every distance evaluator.
\<close>

theorem zero_quantity_line_takes_stock:
  "map item_quantity (items cart_zero) = [Some 0, Some 1]
   \<and> stock rice2 = 5 \<and> total_purchased rice2 = None
   \<and> orders_create_auto hav demo_db consumer7 1000 True cart_zero
      = (demo_db\<lparr>products := [rice2\<lparr>stock := 4, total_purchased := Some 1\<rparr>,
                               tomato2\<lparr>stock := 0, total_purchased := Some 5\<rparr>, rice1],
                orders := [\<lparr>oid = 1, consumer_id = 7, product_id = 1, quantity = 1, status = ''Pending'',
                            assigned_annachi_id = Some 2, bundle_id = Some ''1000-7-A2''\<rparr>,
                           \<lparr>oid = 2, consumer_id = 7, product_id = 2, quantity = 1, status = ''Pending'',
                            assigned_annachi_id = Some 2, bundle_id = Some ''1000-7-A2''\<rparr>]\<rparr>,
         CreatedAuto [1, 2] ''1000-7-A2'' 2 None)"
proof -
  have q: "map item_quantity (items cart_zero) = [Some 0, Some 1]"
    by (simp add: cart_zero_def line_def)
  have s0: "stock rice2 = 5" "total_purchased rice2 = None" by (simp_all add: rice2_def)
  have h1: "role consumer7 = ''consumer''" by (simp add: consumer7_def)
  have h2: "items cart_zero \<noteq> []" by (simp add: cart_zero_def)
  have u: "List.map_filter (line_problem (products demo_db) ann2) [n_rice1, n_tomato1] = []"
    by (simp add: line_problem_def product_for_def demo_db_def rice2_def tomato2_def
          rice1_def ann2_def n_rice1_def n_tomato1_def or_empty_def)
  have f: "List.map_filter (line_found (products demo_db) ann2) [n_rice1, n_tomato1]
             = [(rice2, 1), (tomato2, 1)]"
    by (simp add: line_found_def product_for_def demo_db_def rice2_def tomato2_def
          rice1_def ann2_def n_rice1_def n_tomato1_def or_empty_def)
  have b: "auto_bundle_id 1000 7 2 = ''1000-7-A2''"
    by (simp add: auto_bundle_id_def str_int_def str_nat.simps digit_char_def)
  have c: "create_lines [(rice2, 1), (tomato2, 1)] 7 2 ''1000-7-A2'' demo_db []
            = (demo_db\<lparr>products := [rice2\<lparr>stock := 4, total_purchased := Some 1\<rparr>,
                            tomato2\<lparr>stock := 0, total_purchased := Some 5\<rparr>, rice1],
                 orders := [\<lparr>oid = 1, consumer_id = 7, product_id = 1, quantity = 1, status = ''Pending'',
                         assigned_annachi_id = Some 2, bundle_id = Some ''1000-7-A2''\<rparr>,
                        \<lparr>oid = 2, consumer_id = 7, product_id = 2, quantity = 1, status = ''Pending'',
                         assigned_annachi_id = Some 2, bundle_id = Some ''1000-7-A2''\<rparr>]\<rparr>, [1, 2])"
    by (simp add: demo_db_def rice2_def tomato2_def rice1_def new_order_def next_order_id_def
          update_product_def purchase_def Let_def)
  have ids: "uid consumer7 = 7" "uid ann2 = 2" by (simp_all add: consumer7_def ann2_def)
  from orders_create_auto_checked[OF h1 h2 normalize_cart_zero select_by_pincode[of hav],
      where now_ms = 1000 and commit_ok = True]
  have "orders_create_auto hav demo_db consumer7 1000 True cart_zero
      = (demo_db\<lparr>products := [rice2\<lparr>stock := 4, total_purchased := Some 1\<rparr>,
                               tomato2\<lparr>stock := 0, total_purchased := Some 5\<rparr>, rice1],
                orders := [\<lparr>oid = 1, consumer_id = 7, product_id = 1, quantity = 1, status = ''Pending'',
                            assigned_annachi_id = Some 2, bundle_id = Some ''1000-7-A2''\<rparr>,
                           \<lparr>oid = 2, consumer_id = 7, product_id = 2, quantity = 1, status = ''Pending'',
                            assigned_annachi_id = Some 2, bundle_id = Some ''1000-7-A2''\<rparr>]\<rparr>,
         CreatedAuto [1, 2] ''1000-7-A2'' 2 None)"
    unfolding u f ids b c by simp
  then show ?thesis using q s0 by simp
qed

lemma normalize_item_quantity:
  "normalize_item it = Some n \<Longrightarrow> item_quantity it = Some q \<Longrightarrow> q \<noteq> 0 \<Longrightarrow> n_qty n = q \<and> 1 \<le> q"
  by (auto simp: normalize_item_def int_or_1_def Let_def split: if_splits)


section \<open>The broadcaster: proofs\<close>

lemma put_all_char:
  "put_all put_nowait snapshot data subscribers dead =
     (fold (put_step put_nowait data) snapshot subscribers, dead @ dead_of put_nowait data snapshot)"
proof (induction snapshot arbitrary: subscribers dead)
  case Nil
  then show ?case by (simp add: dead_of_def)
next
  case (Cons e snapshot)
  obtain i q where e: "e = (i, q)" by (cases e)
  show ?case unfolding e
    by (cases "put_nowait q data") (simp_all add: Cons.IH put_step_def dead_of_def)
qed

lemma fold_discard: "fold discard dead subscribers = filter (\<lambda>e. fst e \<notin> set dead) subscribers"
proof (induction dead arbitrary: subscribers)
  case Nil
  then show ?case by simp
next
  case (Cons i dead)
  have "discard i subscribers = filter (\<lambda>e. fst e \<noteq> i) subscribers"
    by (simp add: discard_def case_prod_unfold)
  then show ?case by (auto simp: Cons.IH intro: filter_cong)
qed

lemma put_step_unrelated:
  assumes "fst e \<notin> fst ` set subscribers"
  shows "put_step put_nowait data e subscribers = subscribers"
proof (cases "put_nowait (snd e) data")
  case None
  then show ?thesis by (simp add: put_step_def)
next
  case (Some q')
  have "\<And>x. x \<in> set subscribers \<Longrightarrow> (case x of (j, s) \<Rightarrow> if j = fst e then (j, q') else (j, s)) = x"
  proof -
    fix x assume "x \<in> set subscribers"
    then have "fst x \<in> fst ` set subscribers" by (rule imageI)
    then have "fst x \<noteq> fst e" using assms by metis
    then show "(case x of (j, s) \<Rightarrow> if j = fst e then (j, q') else (j, s)) = x"
      by (cases x) simp
  qed
  then show ?thesis by (simp add: put_step_def Some map_idI)
qed

lemma fst_put_step: "map fst (put_step put_nowait data e subscribers) = map fst subscribers"
  by (auto simp: put_step_def split: option.splits)

lemma fold_put_step_unrelated:
  "fst ` set snapshot \<inter> fst ` set subscribers = {} \<Longrightarrow>
   fold (put_step put_nowait data) snapshot subscribers = subscribers"
proof (induction snapshot arbitrary: subscribers)
  case Nil
  then show ?case by simp
next
  case (Cons e snapshot)
  have "put_step put_nowait data e subscribers = subscribers"
    using Cons.prems by (intro put_step_unrelated) auto
  moreover have "fst ` set snapshot \<inter> fst ` set subscribers = {}" using Cons.prems by auto
  ultimately show ?case using Cons.IH by simp
qed

lemma fold_put_step_append:
  "fold (put_step put_nowait data) snapshot (xs @ ys)
     = fold (put_step put_nowait data) snapshot xs @ fold (put_step put_nowait data) snapshot ys"
proof (induction snapshot arbitrary: xs ys)
  case Nil
  then show ?case by simp
next
  case (Cons e snapshot)
  have "put_step put_nowait data e (xs @ ys)
          = put_step put_nowait data e xs @ put_step put_nowait data e ys"
    by (simp add: put_step_def split: option.splits)
  then show ?case by (simp add: Cons.IH)
qed

lemma fold_put_step_self:
  "distinct (map fst snapshot) \<Longrightarrow>
   fold (put_step put_nowait data) snapshot snapshot
     = map (\<lambda>e. case put_nowait (snd e) data of None \<Rightarrow> e | Some q' \<Rightarrow> (fst e, q')) snapshot"
proof (induction snapshot)
  case Nil
  then show ?case by simp
next
  case (Cons e snapshot)
  let ?f = "\<lambda>e. case put_nowait (snd e) data of None \<Rightarrow> e | Some q' \<Rightarrow> (fst e, q')"
  have d: "fst e \<notin> fst ` set snapshot" "distinct (map fst snapshot)" using Cons.prems by auto
  have s1: "put_step put_nowait data e (e # snapshot) = ?f e # snapshot"
  proof -
    have "put_step put_nowait data e [e] = [?f e]"
      by (cases e) (simp add: put_step_def split: option.splits)
    moreover have "put_step put_nowait data e snapshot = snapshot"
      by (rule put_step_unrelated[OF d(1)])
    moreover have "put_step put_nowait data e ([e] @ snapshot)
          = put_step put_nowait data e [e] @ put_step put_nowait data e snapshot"
      by (simp add: put_step_def split: option.splits)
    ultimately show ?thesis by simp
  qed
  have "fst (?f e) = fst e" by (simp split: option.splits)
  then have "fst ` set snapshot \<inter> fst ` set [?f e] = {}" using d(1) by auto
  then have s2: "fold (put_step put_nowait data) snapshot [?f e] = [?f e]"
    by (rule fold_put_step_unrelated)
  have "fold (put_step put_nowait data) (e # snapshot) (e # snapshot)
          = fold (put_step put_nowait data) snapshot ([?f e] @ snapshot)"
    using s1 by simp
  also have "\<dots> = [?f e] @ fold (put_step put_nowait data) snapshot snapshot"
    by (simp only: fold_put_step_append s2)
  finally show ?case using Cons.IH[OF d(2)] by simp
qed

lemma dead_of_member:
  "distinct (map fst snapshot) \<Longrightarrow> e \<in> set snapshot \<Longrightarrow>
   fst e \<in> set (dead_of put_nowait data snapshot) \<longleftrightarrow> put_nowait (snd e) data = None"
proof -
  assume d: "distinct (map fst snapshot)" and e: "e \<in> set snapshot"
  have u: "\<And>e'. e' \<in> set snapshot \<Longrightarrow> fst e' = fst e \<Longrightarrow> e' = e"
    using d e by (meson eq_key_imp_eq_value prod_eqI distinct_map inj_onD)
  show ?thesis using e u by (auto simp: dead_of_def)
qed

lemma broadcast_char:
  assumes "distinct (map fst subscribers)"
  shows "broadcast put_nowait subscribers data = List.map_filter (deliver put_nowait data) subscribers"
proof -
  let ?f = "\<lambda>e. case put_nowait (snd e) data of None \<Rightarrow> e | Some q' \<Rightarrow> (fst e, q')"
  let ?dead = "dead_of put_nowait data subscribers"
  have b: "broadcast put_nowait subscribers data = filter (\<lambda>e. fst e \<notin> set ?dead) (map ?f subscribers)"
    by (simp add: broadcast_def put_all_char fold_discard fold_put_step_self[OF assms])
  have fe: "\<And>e. fst (?f e) = fst e" by (simp split: option.splits)
  have "filter (\<lambda>e. fst e \<notin> set ?dead) (map ?f subscribers)
          = map ?f (filter (\<lambda>e. fst e \<notin> set ?dead) subscribers)"
    by (simp add: filter_map comp_def fe)
  also have "\<dots> = map ?f (filter (\<lambda>e. put_nowait (snd e) data \<noteq> None) subscribers)"
    using dead_of_member[OF assms] by (metis (mono_tags, lifting) filter_cong)
  also have "\<dots> = List.map_filter (deliver put_nowait data) subscribers"
    by (induction subscribers) (auto simp: deliver_def split: option.splits)
  finally show ?thesis using b by simp
qed

text \<open>
  Claim C9. For a registry of distinct queues and any event, \<open>broadcast\<close> returns (it has
  no way to raise: the only call that can, the enqueue, is caught), and the registry it
  leaves is the old one with every queue whose enqueue succeeded holding the event and
  every queue whose enqueue raised removed. A failing queue neither stops the delivery
  to the others nor stays registered.
\<close>

theorem broadcast_fault_isolation:
  assumes "distinct (map fst subscribers)"
  shows "broadcast put_nowait subscribers data = List.map_filter (deliver put_nowait data) subscribers
       \<and> (\<forall>e \<in> set subscribers. \<forall>q'. put_nowait (snd e) data = Some q' \<longrightarrow>
              (fst e, q') \<in> set (broadcast put_nowait subscribers data))
       \<and> (\<forall>e \<in> set subscribers. put_nowait (snd e) data = None \<longrightarrow>
              fst e \<notin> fst ` set (broadcast put_nowait subscribers data))"
proof -
  note c = broadcast_char[OF assms, of put_nowait data]
  have s: "set (broadcast put_nowait subscribers data)
             = {y. \<exists>e \<in> set subscribers. deliver put_nowait data e = Some y}"
    by (simp only: c set_map_filter)
  have a: "\<forall>e \<in> set subscribers. \<forall>q'. put_nowait (snd e) data = Some q' \<longrightarrow>
              (fst e, q') \<in> set (broadcast put_nowait subscribers data)"
  proof (intro ballI allI impI)
    fix e q' assume "e \<in> set subscribers" "put_nowait (snd e) data = Some q'"
    then have "e \<in> set subscribers \<and> deliver put_nowait data e = Some (fst e, q')"
      by (simp add: deliver_def)
    then show "(fst e, q') \<in> set (broadcast put_nowait subscribers data)"
      unfolding s by blast
  qed
  have b: "\<forall>e \<in> set subscribers. put_nowait (snd e) data = None \<longrightarrow>
              fst e \<notin> fst ` set (broadcast put_nowait subscribers data)"
  proof (intro ballI impI notI)
    fix e assume e: "e \<in> set subscribers" "put_nowait (snd e) data = None"
       and "fst e \<in> fst ` set (broadcast put_nowait subscribers data)"
    then obtain y where y: "y \<in> set (broadcast put_nowait subscribers data)" "fst y = fst e" by force
    then obtain e' where e': "e' \<in> set subscribers" "deliver put_nowait data e' = Some y"
      unfolding s by blast
    then have "fst e' = fst e" "put_nowait (snd e') data \<noteq> None"
      using y(2) by (auto simp: deliver_def split: option.splits)
    moreover have "e' = e"
      using assms e(1) e'(1) \<open>fst e' = fst e\<close>
      by (meson eq_key_imp_eq_value prod_eqI distinct_map inj_onD)
    ultimately show False using e(2) by simp
  qed
  show ?thesis using c a b by blast
qed

theorem broadcast_fault_isolation_witness:
  "distinct (map fst demo_subscribers)
   \<and> broadcast bounded_put demo_subscribers ''new_order''
        = List.map_filter (deliver bounded_put ''new_order'') demo_subscribers
   \<and> broadcast bounded_put demo_subscribers ''new_order'' = [(1, [''new_order'']), (3, [''a'', ''new_order''])]"
proof -
  have h: "distinct (map fst demo_subscribers)" by (simp add: demo_subscribers_def)
  have "broadcast bounded_put demo_subscribers ''new_order''
        = List.map_filter (deliver bounded_put ''new_order'') demo_subscribers"
    by (rule conjunct1[OF broadcast_fault_isolation[OF h, of bounded_put "''new_order''"]])
  moreover have "List.map_filter (deliver bounded_put ''new_order'') demo_subscribers
        = [(1, [''new_order'']), (3, [''a'', ''new_order''])]"
    by (simp add: demo_subscribers_def deliver_def bounded_put_def)
  ultimately show ?thesis using h by simp
qed

lemma broadcast_demo_run:
  "broadcast bounded_put demo_subscribers ''new_order'' = [(1, [''new_order'']), (3, [''a'', ''new_order''])]"
  by (simp add: broadcast_def demo_subscribers_def bounded_put_def discard_def)


section \<open>Status updates: proofs\<close>

lemma product_get_unique:
  assumes "distinct (map pid ps)" "p \<in> set ps"
  shows "product_get ps (pid p) = Some p"
  using assms
proof (induction ps)
  case Nil
  then show ?case by simp
next
  case (Cons a ps)
  show ?case
  proof (cases "a = p")
    case True
    then show ?thesis by (simp add: product_get_def)
  next
    case False
    then have pin: "p \<in> set ps" using Cons.prems(2) by simp
    then have "pid p \<in> pid ` set ps" by (rule imageI)
    moreover have "pid a \<notin> pid ` set ps" using Cons.prems(1) by simp
    ultimately have ne: "pid a \<noteq> pid p" by metis
    have "product_get ps (pid p) = Some p" using Cons.IH Cons.prems(1) pin by simp
    then show ?thesis using ne by (simp add: product_get_def)
  qed
qed

lemma bundle_row_iff:
  assumes "referential_integrity d" "r \<in> set (orders d)"
  shows "bundle_row d cu b r \<longleftrightarrow> bundle_id r = Some b \<and> authorized_line d cu r"
proof -
  from assms obtain p where p: "p \<in> set (products d)" "pid p = product_id r"
    unfolding referential_integrity_def by blast
  have dist: "distinct (map pid (products d))" using assms(1) unfolding referential_integrity_def by blast
  have g: "product_get (products d) (product_id r) = Some p"
    using product_get_unique[OF dist p(1)] p(2) by simp
  have inj: "inj_on pid (set (products d))" using dist by (simp only: distinct_map)
  have u: "(\<exists>p' \<in> set (products d). pid p' = product_id r \<and> owner_id p' = uid cu) \<longleftrightarrow> owner_id p = uid cu"
  proof
    assume "\<exists>p' \<in> set (products d). pid p' = product_id r \<and> owner_id p' = uid cu"
    then obtain p' where p': "p' \<in> set (products d)" "pid p' = product_id r" "owner_id p' = uid cu" by blast
    have "pid p' = pid p" using p'(2) p(2) by simp
    then have "p' = p" by (rule inj_onD[OF inj _ p'(1) p(1)])
    then show "owner_id p = uid cu" using p'(3) by simp
  next
    assume "owner_id p = uid cu"
    then show "\<exists>p' \<in> set (products d). pid p' = product_id r \<and> owner_id p' = uid cu" using p by blast
  qed
  show ?thesis unfolding bundle_row_def authorized_line_def g u by simp
qed

text \<open>
  Claim C8. For a caller of role \<open>annachi\<close>, a bundle id and a non-empty target status, on a
  database that respects its keys: \<open>annachi_orders_update\<close> gives the target status to
  exactly the lines of the bundle whose product the caller owns or whose assigned provider
  the caller is; every other order row, every other field of the updated rows, and the
  user and product tables stay as they were. As soon as one line of the bundle is
  authorized the call succeeds, whatever other lines the bundle holds.
\<close>

theorem bundle_status_update_frame:
  assumes "role cu = ''annachi''" "s \<noteq> []" "referential_integrity d"
  shows "fst (annachi_orders_update parse_int d cu (''BUNDLE_'' @ b) (Some s))
           = d\<lparr>orders := map (\<lambda>r. if bundle_id r = Some b \<and> authorized_line d cu r
                                    then r\<lparr>status := s\<rparr> else r) (orders d)\<rparr>
       \<and> ((\<exists>r \<in> set (orders d). bundle_id r = Some b \<and> authorized_line d cu r) \<longrightarrow>
            snd (annachi_orders_update parse_int d cu (''BUNDLE_'' @ b) (Some s)) = BundleUpdated b s)"
proof -
  let ?upd = "\<lambda>r. if bundle_id r = Some b \<and> authorized_line d cu r then r\<lparr>status := s\<rparr> else r"
  have m: "map (\<lambda>r. if bundle_row d cu b r then r\<lparr>status := s\<rparr> else r) (orders d) = map ?upd (orders d)"
    by (rule map_cong) (simp_all add: bundle_row_iff[OF assms(3)])
  have f: "filter (bundle_row d cu b) (orders d)
            = filter (\<lambda>r. bundle_id r = Some b \<and> authorized_line d cu r) (orders d)"
    by (rule filter_cong) (simp_all add: bundle_row_iff[OF assms(3)])
  show ?thesis
  proof (cases "\<exists>r \<in> set (orders d). bundle_id r = Some b \<and> authorized_line d cu r")
    case True
    then have "filter (bundle_row d cu b) (orders d) \<noteq> []"
      unfolding f by (simp add: filter_empty_conv)
    then show ?thesis using assms(1,2) True by (simp add: annachi_orders_update_def m)
  next
    case False
    then have e: "filter (bundle_row d cu b) (orders d) = []"
      unfolding f by (simp add: filter_empty_conv)
    have "map ?upd (orders d) = orders d" using False by (intro map_idI) auto
    then show ?thesis using assms(1) False e by (simp add: annachi_orders_update_def)
  qed
qed

lemmas shared_defs = shared_db_def line_a_def line_b_def line_c_def rice2_def tomato2_def rice1_def ann2_def

lemma shared_db_integrity: "referential_integrity shared_db"
  by (simp add: referential_integrity_def shared_defs)

lemma shared_db_authorized:
  "authorized_line shared_db ann2 line_a" "\<not> authorized_line shared_db ann2 line_b"
  by (simp_all add: authorized_line_def shared_defs)

theorem bundle_status_update_frame_witness:
  "role ann2 = ''annachi'' \<and> ''Packed'' \<noteq> [] \<and> referential_integrity shared_db
   \<and> (\<exists>r \<in> set (orders shared_db). bundle_id r = Some ''1000-7-A2'' \<and> authorized_line shared_db ann2 r)
   \<and> snd (annachi_orders_update no_int shared_db ann2 (''BUNDLE_'' @ ''1000-7-A2'') (Some ''Packed''))
        = BundleUpdated ''1000-7-A2'' ''Packed''
   \<and> orders (fst (annachi_orders_update no_int shared_db ann2 (''BUNDLE_'' @ ''1000-7-A2'') (Some ''Packed'')))
        = [line_a\<lparr>status := ''Packed''\<rparr>, line_b, line_c]"
proof -
  have h1: "role ann2 = ''annachi''" by (simp add: ann2_def)
  have h2: "''Packed'' \<noteq> []" by simp
  note h3 = shared_db_integrity
  have h4: "\<exists>r \<in> set (orders shared_db). bundle_id r = Some ''1000-7-A2'' \<and> authorized_line shared_db ann2 r"
    using shared_db_authorized(1) by (simp add: shared_db_def line_a_def)
  note t = bundle_status_update_frame[OF h1 h2 h3, of no_int "''1000-7-A2''"]
  have r: "snd (annachi_orders_update no_int shared_db ann2 (''BUNDLE_'' @ ''1000-7-A2'') (Some ''Packed''))
        = BundleUpdated ''1000-7-A2'' ''Packed''"
    using conjunct2[OF t] h4 by (rule mp)
  have o: "orders shared_db = [line_a, line_b, line_c]" by (simp add: shared_db_def)
  have b: "bundle_id line_a = Some ''1000-7-A2''" "bundle_id line_b = Some ''1000-7-A2''"
          "bundle_id line_c \<noteq> Some ''1000-7-A2''"
    by (simp_all add: line_a_def line_b_def line_c_def)
  have "orders (fst (annachi_orders_update no_int shared_db ann2 (''BUNDLE_'' @ ''1000-7-A2'') (Some ''Packed'')))
        = [line_a\<lparr>status := ''Packed''\<rparr>, line_b, line_c]"
    unfolding conjunct1[OF t] by (simp add: o b shared_db_authorized)
  then show ?thesis using h1 h2 h3 h4 r by simp
qed


section \<open>Bundle ids and the bundle invariant: proofs\<close>

declare str_nat.simps [simp del]

lemma small_digit: "(n::nat) < 10 \<Longrightarrow> n \<in> set [0, 1, 2, 3, 4, 5, 6, 7, 8, 9]"
  by simp arith

lemma digit_char_mem: "n < 10 \<Longrightarrow> digit_char n \<in> set ''0123456789''"
  unfolding digit_char_def by (rule nth_mem) simp

lemma digit_val_char: "n < 10 \<Longrightarrow> digit_val (digit_char n) = n"
proof -
  assume "n < 10"
  then have "n \<in> set [0, 1, 2, 3, 4, 5, 6, 7, 8, 9]" by (rule small_digit)
  then show ?thesis by (auto simp: digit_val_def digit_char_def)
qed

lemma str_nat_chars: "set (str_nat n) \<subseteq> set ''0123456789''"
proof (induction n rule: str_nat.induct)
  case (1 n)
  show ?case
  proof (cases "n < 10")
    case True
    then show ?thesis using digit_char_mem[of n] by (subst str_nat.simps) simp
  next
    case False
    have "n mod 10 < 10" by simp
    then have "digit_char (n mod 10) \<in> set ''0123456789''" by (rule digit_char_mem)
    then show ?thesis using 1[OF False] False by (subst str_nat.simps) simp
  qed
qed

lemma digits_val_snoc: "digits_val (s @ [c]) = 10 * digits_val s + digit_val c"
  by (simp add: digits_val_def)

lemma digits_val_str_nat: "digits_val (str_nat n) = n"
proof (induction n rule: str_nat.induct)
  case (1 n)
  show ?case
  proof (cases "n < 10")
    case True
    then show ?thesis by (subst str_nat.simps) (simp add: digits_val_def digit_val_char)
  next
    case False
    have "digits_val (str_nat (n div 10) @ [digit_char (n mod 10)])
            = 10 * (n div 10) + n mod 10"
      using 1[OF False] by (simp add: digits_val_snoc digit_val_char)
    then show ?thesis using False by (subst str_nat.simps) simp
  qed
qed

lemma str_nat_inj: "str_nat m = str_nat n \<Longrightarrow> m = n"
  by (metis digits_val_str_nat)

lemma minus_not_digit: "CHR ''-'' \<notin> set (str_nat n)"
proof
  assume "CHR ''-'' \<in> set (str_nat n)"
  then have "CHR ''-'' \<in> set ''0123456789''" using str_nat_chars[of n] by (rule subsetD[rotated])
  then show False by simp
qed

lemma str_int_inj: "str_int i = str_int j \<Longrightarrow> i = j"
proof -
  assume e: "str_int i = str_int j"
  show ?thesis
  proof (cases "i < 0")
    case True
    show ?thesis
    proof (cases "j < 0")
      case jn: True
      then have "nat (- i) = nat (- j)" using e True by (simp add: str_int_def str_nat_inj)
      then show ?thesis using True jn by simp
    next
      case False
      then have "CHR ''-'' # str_nat (nat (- i)) = str_nat (nat j)" using e True by (simp add: str_int_def)
      then have "CHR ''-'' \<in> set (str_nat (nat j))" by (metis list.set_intros(1))
      then show ?thesis using minus_not_digit by blast
    qed
  next
    case False
    show ?thesis
    proof (cases "j < 0")
      case True
      then have "str_nat (nat i) = CHR ''-'' # str_nat (nat (- j))" using e False by (simp add: str_int_def)
      then have "CHR ''-'' \<in> set (str_nat (nat i))" by (metis list.set_intros(1))
      then show ?thesis using minus_not_digit by blast
    next
      case jp: False
      then have "nat i = nat j" using e False by (simp add: str_int_def str_nat_inj)
      then show ?thesis using False jp by simp
    qed
  qed
qed

lemma no_A_str_nat: "CHR ''A'' \<notin> set (str_nat n)"
proof
  assume "CHR ''A'' \<in> set (str_nat n)"
  then have "CHR ''A'' \<in> set ''0123456789''" using str_nat_chars[of n] by (rule subsetD[rotated])
  then show False by simp
qed

lemma no_A_str_int: "CHR ''A'' \<notin> set (str_int i)"
  by (simp add: str_int_def no_A_str_nat)

lemma split_at_unique:
  "c \<notin> set xs \<Longrightarrow> c \<notin> set xs' \<Longrightarrow> xs @ c # ys = xs' @ c # ys' \<Longrightarrow> ys = ys'"
proof (induction xs arbitrary: xs')
  case Nil
  then show ?case by (cases xs') auto
next
  case (Cons x xs)
  then show ?case by (cases xs') auto
qed

lemma auto_bundle_id_split:
  "auto_bundle_id ms c k = (str_int ms @ ''-'' @ str_int c @ ''-'') @ CHR ''A'' # str_int k"
  by (simp add: auto_bundle_id_def)

lemma auto_bundle_id_provider:
  assumes "auto_bundle_id ms c k = auto_bundle_id ms' c' k'"
  shows "k = k'"
proof -
  have a: "CHR ''A'' \<notin> set (str_int ms @ ''-'' @ str_int c @ ''-'')"
          "CHR ''A'' \<notin> set (str_int ms' @ ''-'' @ str_int c' @ ''-'')"
    using no_A_str_int by simp_all
  have "str_int k = str_int k'"
    using split_at_unique[OF a] assms unfolding auto_bundle_id_split by blast
  then show ?thesis by (rule str_int_inj)
qed

lemma auto_bundle_id_has_A: "CHR ''A'' \<in> set (auto_bundle_id ms c k)"
  by (simp add: auto_bundle_id_def)

lemma not_auto_without_A: "CHR ''A'' \<notin> set s \<Longrightarrow> s \<noteq> auto_bundle_id ms c k"
  using auto_bundle_id_has_A[of ms c k] by metis

lemma legacy_id_not_auto:
  "str_int ms @ ''-'' @ str_int c @ ''-legacy'' \<noteq> auto_bundle_id ms' c' k"
proof (rule not_auto_without_A)
  show "CHR ''A'' \<notin> set (str_int ms @ ''-'' @ str_int c @ ''-legacy'')" using no_A_str_int by simp
qed

lemma single_id_not_auto:
  "str_int ms @ ''-'' @ str_int c @ ''-single'' \<noteq> auto_bundle_id ms' c' k"
proof (rule not_auto_without_A)
  show "CHR ''A'' \<notin> set (str_int ms @ ''-'' @ str_int c @ ''-single'')" using no_A_str_int by simp
qed

lemma orders_create_auto_orders:
  assumes "orders_create_auto hav d cu now_ms commit_ok pl = (d', r)" "o' \<in> set (orders d')"
  shows "o' \<in> set (orders d)
       \<or> (\<exists>k. bundle_id o' = Some (auto_bundle_id now_ms (uid cu) k) \<and> assigned_annachi_id o' = Some k)"
proof (cases "d' = d")
  case True
  then show ?thesis using assms(2) by simp
next
  case False
  have "\<exists>(ann::user) rows x. create_lines rows (uid cu) (uid ann) (auto_bundle_id now_ms (uid cu) (uid ann)) d []
                        = (d', x)"
    using assms(1) False
    by (simp add: orders_create_auto_def Let_def
          split: if_splits sum.splits option.splits prod.splits) blast
  then obtain ann :: user and rows x where
    "create_lines rows (uid cu) (uid ann) (auto_bundle_id now_ms (uid cu) (uid ann)) d [] = (d', x)"
    by blast
  then have "orders d' = orders d @ lines_of rows (uid cu) (uid ann)
                                     (auto_bundle_id now_ms (uid cu) (uid ann)) (orders d)"
    by (auto simp: create_lines_char)
  then show ?thesis using assms(2) lines_of_fields by auto
qed

lemma api_create_order_orders:
  assumes "api_create_order d cu now_ms data_pid data_qty = (d', r)" "o' \<in> set (orders d')"
  shows "o' \<in> set (orders d)
       \<or> bundle_id o' = Some (str_int now_ms @ ''-'' @ str_int (uid cu) @ ''-single'')"
  using assms
  by (auto simp: api_create_order_def Let_def new_order_def split: if_splits option.splits)

lemma legacy_lines_orders:
  "legacy_lines its cid bid d created = Inr (d', created') \<Longrightarrow> o' \<in> set (orders d') \<Longrightarrow>
   o' \<in> set (orders d) \<or> bundle_id o' = Some bid"
proof (induction its arbitrary: d created)
  case Nil
  then show ?case by simp
next
  case (Cons it its)
  let ?qty = "case li_quantity it of None \<Rightarrow> 1 | Some q \<Rightarrow> q"
  from Cons.prems(1) obtain prd where p: "product_get (products d) (li_product_id it) = Some prd"
    by (auto simp: Let_def split: option.splits)
  let ?order = "new_order (orders d) cid (pid prd) ?qty (owner_id prd) bid"
  let ?d1 = "d\<lparr>products := update_product (pid prd) (purchase ?qty) (products d),
                 orders := orders d @ [?order]\<rparr>"
  have step: "legacy_lines its cid bid ?d1 (created @ [oid ?order]) = Inr (d', created')"
    using Cons.prems(1) p by (simp add: Let_def split: if_splits)
  from Cons.IH[OF step Cons.prems(2)]
  have "o' \<in> set (orders ?d1) \<or> bundle_id o' = Some bid" .
  then show ?case by (auto simp: new_order_def)
qed

lemma orders_create_orders:
  assumes "orders_create d cu now_ms its = (d', r)" "o' \<in> set (orders d')"
  shows "o' \<in> set (orders d)
       \<or> bundle_id o' = Some (str_int now_ms @ ''-'' @ str_int (uid cu) @ ''-legacy'')"
proof (cases "d' = d")
  case True
  then show ?thesis using assms(2) by simp
next
  case False
  then have "\<exists>created. legacy_lines its (uid cu)
               (str_int now_ms @ ''-'' @ str_int (uid cu) @ ''-legacy'') d [] = Inr (d', created)"
    using assms(1) by (auto simp: orders_create_def Let_def split: if_splits sum.splits prod.splits)
  then show ?thesis using legacy_lines_orders assms(2) by blast
qed

lemma status_map_keeps_bundle:
  assumes "o' \<in> set (map (\<lambda>r. if f r then r\<lparr>status := s\<rparr> else r) os)"
  shows "\<exists>o0 \<in> set os. bundle_id o' = bundle_id o0 \<and> assigned_annachi_id o' = assigned_annachi_id o0"
proof -
  from assms obtain o0 where o0: "o0 \<in> set os" "o' = (if f o0 then o0\<lparr>status := s\<rparr> else o0)"
    by auto
  then have "bundle_id o' = bundle_id o0 \<and> assigned_annachi_id o' = assigned_annachi_id o0"
    by simp
  then show ?thesis using o0(1) by blast
qed

lemma annachi_orders_update_orders:
  assumes "annachi_orders_update parse_int d cu oid_str new_status = (d', u)" "o' \<in> set (orders d')"
  shows "\<exists>o0 \<in> set (orders d). bundle_id o' = bundle_id o0
            \<and> assigned_annachi_id o' = assigned_annachi_id o0"
proof (cases "d' = d")
  case True
  then show ?thesis using assms(2) by auto
next
  case False
  have "(\<exists>s. d' = d\<lparr>orders := map (\<lambda>r. if bundle_row d cu (drop 7 oid_str) r then r\<lparr>status := s\<rparr> else r) (orders d)\<rparr>)
      \<or> (\<exists>k s. d' = d\<lparr>orders := map (\<lambda>r. if oid r = k then r\<lparr>status := s\<rparr> else r) (orders d)\<rparr>)"
    using assms(1) False
    by (simp add: annachi_orders_update_def Let_def split: if_splits option.splits) blast+
  then show ?thesis
  proof (elim disjE exE)
    fix s assume "d' = d\<lparr>orders := map (\<lambda>r. if bundle_row d cu (drop 7 oid_str) r then r\<lparr>status := s\<rparr> else r) (orders d)\<rparr>"
    then have "o' \<in> set (map (\<lambda>r. if bundle_row d cu (drop 7 oid_str) r then r\<lparr>status := s\<rparr> else r) (orders d))"
      using assms(2) by simp
    then show ?thesis by (rule status_map_keeps_bundle)
  next
    fix k s assume "d' = d\<lparr>orders := map (\<lambda>r. if oid r = k then r\<lparr>status := s\<rparr> else r) (orders d)\<rparr>"
    then have "o' \<in> set (map (\<lambda>r. if oid r = k then r\<lparr>status := s\<rparr> else r) (orders d))"
      using assms(2) by simp
    then show ?thesis by (rule status_map_keeps_bundle)
  qed
qed

lemma auto_inv_I:
  assumes "\<And>o' ms c k. o' \<in> set os \<Longrightarrow> bundle_id o' = Some (auto_bundle_id ms c k)
             \<Longrightarrow> assigned_annachi_id o' = Some k"
  shows "auto_inv os"
  using assms unfolding auto_inv_def by blast

lemma auto_inv_D:
  "auto_inv os \<Longrightarrow> o' \<in> set os \<Longrightarrow> bundle_id o' = Some (auto_bundle_id ms c k)
     \<Longrightarrow> assigned_annachi_id o' = Some k"
  unfolding auto_inv_def by blast

lemma reachable_auto_inv: "reachable os \<Longrightarrow> auto_inv os"
proof (induction rule: reachable.induct)
  case (initial os)
  then show ?case unfolding auto_inv_def by simp
next
  case (auto d hav cu now_ms commit_ok pl d' r)
  show ?case
  proof (rule auto_inv_I)
    fix o' ms c k
    assume o: "o' \<in> set (orders d')" "bundle_id o' = Some (auto_bundle_id ms c k)"
    from orders_create_auto_orders[OF auto.hyps(2) o(1)]
    show "assigned_annachi_id o' = Some k"
    proof
      assume "o' \<in> set (orders d)"
      then show ?thesis by (rule auto_inv_D[OF auto.IH _ o(2)])
    next
      assume "\<exists>k'. bundle_id o' = Some (auto_bundle_id now_ms (uid cu) k') \<and> assigned_annachi_id o' = Some k'"
      then obtain k' where k': "bundle_id o' = Some (auto_bundle_id now_ms (uid cu) k')"
          "assigned_annachi_id o' = Some k'" by blast
      then have "auto_bundle_id now_ms (uid cu) k' = auto_bundle_id ms c k" using o(2) by simp
      then have "k' = k" by (rule auto_bundle_id_provider)
      then show ?thesis using k'(2) by simp
    qed
  qed
next
  case (single d cu now_ms data_pid data_qty d' r)
  show ?case
  proof (rule auto_inv_I)
    fix o' ms c k
    assume o: "o' \<in> set (orders d')" "bundle_id o' = Some (auto_bundle_id ms c k)"
    from api_create_order_orders[OF single.hyps(2) o(1)]
    show "assigned_annachi_id o' = Some k"
    proof
      assume "o' \<in> set (orders d)"
      then show ?thesis by (rule auto_inv_D[OF single.IH _ o(2)])
    next
      assume "bundle_id o' = Some (str_int now_ms @ ''-'' @ str_int (uid cu) @ ''-single'')"
      then have "str_int now_ms @ ''-'' @ str_int (uid cu) @ ''-single'' = auto_bundle_id ms c k"
        using o(2) by simp
      then show ?thesis using single_id_not_auto by blast
    qed
  qed
next
  case (legacy d cu now_ms its d' r)
  show ?case
  proof (rule auto_inv_I)
    fix o' ms c k
    assume o: "o' \<in> set (orders d')" "bundle_id o' = Some (auto_bundle_id ms c k)"
    from orders_create_orders[OF legacy.hyps(2) o(1)]
    show "assigned_annachi_id o' = Some k"
    proof
      assume "o' \<in> set (orders d)"
      then show ?thesis by (rule auto_inv_D[OF legacy.IH _ o(2)])
    next
      assume "bundle_id o' = Some (str_int now_ms @ ''-'' @ str_int (uid cu) @ ''-legacy'')"
      then have "str_int now_ms @ ''-'' @ str_int (uid cu) @ ''-legacy'' = auto_bundle_id ms c k"
        using o(2) by simp
      then show ?thesis using legacy_id_not_auto by blast
    qed
  qed
next
  case (update d parse_int cu oid_str new_status d' u)
  show ?case
  proof (rule auto_inv_I)
    fix o' ms c k
    assume o: "o' \<in> set (orders d')" "bundle_id o' = Some (auto_bundle_id ms c k)"
    from annachi_orders_update_orders[OF update.hyps(2) o(1)]
    obtain o0 where o0: "o0 \<in> set (orders d)" "bundle_id o' = bundle_id o0"
        "assigned_annachi_id o' = assigned_annachi_id o0" by blast
    have "bundle_id o0 = Some (auto_bundle_id ms c k)" using o0(2) o(2) by simp
    then have "assigned_annachi_id o0 = Some k" by (rule auto_inv_D[OF update.IH o0(1)])
    then show "assigned_annachi_id o' = Some k" using o0(3) by simp
  qed
qed

text \<open>
  Claim C2, as amended. In every reachable order table, two lines that share a bundle id
  generated by \<open>orders_create_auto\<close> have the same assigned provider, the one the id
  names. Every route that writes orders (\<open>orders_create_auto\<close>, \<open>api_create_order\<close>,
  \<open>orders_create\<close>, \<open>annachi_orders_update\<close>) preserves this.
\<close>

theorem auto_bundle_single_provider:
  assumes "reachable os" "o1 \<in> set os" "o2 \<in> set os"
      and "bundle_id o1 = Some (auto_bundle_id ms c k)" "bundle_id o2 = bundle_id o1"
  shows "assigned_annachi_id o1 = Some k \<and> assigned_annachi_id o2 = assigned_annachi_id o1"
proof -
  have i: "auto_inv os" using assms(1) by (rule reachable_auto_inv)
  have a: "assigned_annachi_id o1 = Some k" by (rule auto_inv_D[OF i assms(2) assms(4)])
  have "bundle_id o2 = Some (auto_bundle_id ms c k)" using assms(4,5) by simp
  then have "assigned_annachi_id o2 = Some k" by (rule auto_inv_D[OF i assms(3)])
  then show ?thesis using a by simp
qed

lemma legacy_run:
  "orders (fst (orders_create demo_db consumer7 1000 mixed_cart))
     = [\<lparr>oid = 1, consumer_id = 7, product_id = 1, quantity = 1, status = ''Pending'',
         assigned_annachi_id = Some 2, bundle_id = Some ''1000-7-legacy''\<rparr>,
        \<lparr>oid = 2, consumer_id = 7, product_id = 3, quantity = 1, status = ''Pending'',
         assigned_annachi_id = Some 1, bundle_id = Some ''1000-7-legacy''\<rparr>]"
  by (simp add: orders_create_def mixed_cart_def demo_db_def consumer7_def rice2_def tomato2_def rice1_def
        product_get_def FIXED_CATS_def py_lower_def lower_char_def new_order_def next_order_id_def
        update_product_def purchase_def str_int_def str_nat.simps digit_char_def Let_def)

lemma reachable_empty: "reachable (orders demo_db)"
  by (rule reachable.initial) (simp add: demo_db_def)

text \<open>
  Claim C2 as stated fails: \<open>orders_create\<close> gives every line the legacy bundle id of
  the submission and the owner of its own product as assigned provider, so a cart over
  the products of two providers yields a reachable table in which one bundle has two
  providers.
\<close>

theorem legacy_bundle_spans_providers:
  "reachable (orders (fst (orders_create demo_db consumer7 1000 mixed_cart)))
   \<and> bundle_inv (orders demo_db)
   \<and> \<not> bundle_inv (orders (fst (orders_create demo_db consumer7 1000 mixed_cart)))"
proof -
  have r: "reachable (orders (fst (orders_create demo_db consumer7 1000 mixed_cart)))"
    by (rule reachable.legacy[OF reachable_empty, of consumer7 1000 mixed_cart _
          "snd (orders_create demo_db consumer7 1000 mixed_cart)"]) simp
  have a: "bundle_inv (orders demo_db)" by (simp add: bundle_inv_def demo_db_def)
  have b: "\<not> bundle_inv (orders (fst (orders_create demo_db consumer7 1000 mixed_cart)))"
    unfolding legacy_run by (simp add: bundle_inv_def)
  show ?thesis using r a b by blast
qed

lemma placed_orders:
  "orders (fst (orders_create_auto demo_hav demo_db consumer7 1000 True cart_ok))
     = orders demo_db @ [placed_first, placed_second]"
proof -
  have "orders demo_db = []" by (simp add: demo_db_def)
  then show ?thesis unfolding spec_example_success by (simp add: placed_first_def placed_second_def)
qed

theorem auto_bundle_single_provider_witness:
  "reachable (orders (fst (orders_create_auto demo_hav demo_db consumer7 1000 True cart_ok)))
   \<and> placed_first \<in> set (orders (fst (orders_create_auto demo_hav demo_db consumer7 1000 True cart_ok)))
   \<and> placed_second \<in> set (orders (fst (orders_create_auto demo_hav demo_db consumer7 1000 True cart_ok)))
   \<and> bundle_id placed_first = Some (auto_bundle_id 1000 7 2)
   \<and> bundle_id placed_second = bundle_id placed_first
   \<and> assigned_annachi_id placed_first = Some 2
   \<and> assigned_annachi_id placed_second = assigned_annachi_id placed_first"
proof -
  let ?os = "orders (fst (orders_create_auto demo_hav demo_db consumer7 1000 True cart_ok))"
  have h1: "reachable ?os"
    by (rule reachable.auto[OF reachable_empty, of demo_hav consumer7 1000 True cart_ok _
          "snd (orders_create_auto demo_hav demo_db consumer7 1000 True cart_ok)"]) simp
  have h2: "placed_first \<in> set ?os" by (simp add: placed_orders)
  have h3: "placed_second \<in> set ?os" by (simp add: placed_orders)
  have h4: "bundle_id placed_first = Some (auto_bundle_id 1000 7 2)"
    by (simp add: placed_first_def auto_bundle_id_def str_int_def str_nat.simps digit_char_def)
  have h5: "bundle_id placed_second = bundle_id placed_first"
    by (simp add: placed_first_def placed_second_def)
  from auto_bundle_single_provider[OF h1 h2 h3 h4 h5] h1 h2 h3 h4 h5
  show ?thesis by simp
qed

end
